theory Spec2Isabelle
  imports Main "HOL-Library.AList" "HOL-Library.Char_ord" "HOL-Library.List_Lexorder"
begin

section \<open>Values and errors\<close>

text \<open>
  Strings are \<^typ>\<open>string\<close>: lists of 8-bit characters, compared lexicographically
  by character code as Python compares \<open>str\<close>. The model covers ASCII text; Python's
  \<open>lower\<close> and \<open>upper\<close> act on the letters A to Z and a to z and leave the other
  characters alone.

  Every exception the scripts can raise is a value of \<open>error\<close>; a computation that may
  raise returns \<open>error + 'a\<close>, with \<open>Inl\<close> for the exception.
\<close>

datatype error =
    IndexError | KeyError | TypeError | AttributeError | StopIteration
  | ParseError | RequestError

definition lower_char :: "char \<Rightarrow> char" where
  "lower_char c =
     (case map_of (zip ''ABCDEFGHIJKLMNOPQRSTUVWXYZ'' ''abcdefghijklmnopqrstuvwxyz'') c of
        None \<Rightarrow> c | Some d \<Rightarrow> d)"

definition upper_char :: "char \<Rightarrow> char" where
  "upper_char c =
     (case map_of (zip ''abcdefghijklmnopqrstuvwxyz'' ''ABCDEFGHIJKLMNOPQRSTUVWXYZ'') c of
        None \<Rightarrow> c | Some d \<Rightarrow> d)"

definition lower :: "string \<Rightarrow> string" where
  "lower s = map lower_char s"

definition upper :: "string \<Rightarrow> string" where
  "upper s = map upper_char s"

text \<open>
  \<open>s.split(sep)\<close> for a one-character separator: the pieces between the occurrences
  of \<open>sep\<close>, empty pieces included; the result is never empty.
\<close>

fun split :: "string \<Rightarrow> char \<Rightarrow> string list" where
  "split [] sep = [[]]"
| "split (c # cs) sep =
     (if c = sep then [] # split cs sep
      else (case split cs sep of [] \<Rightarrow> [[c]] | t # ts \<Rightarrow> (c # t) # ts))"

text \<open>\<open>sep.join(xs)\<close> on a list of strings.\<close>

fun join :: "string \<Rightarrow> string list \<Rightarrow> string" where
  "join sep [] = []"
| "join sep [x] = x"
| "join sep (x # y # ys) = x @ sep @ join sep (y # ys)"

text \<open>\<open>xs[i]\<close> for a non-negative index: IndexError out of range.\<close>

definition getitem :: "'a list \<Rightarrow> nat \<Rightarrow> error + 'a" where
  "getitem xs i = (if i < length xs then Inr (xs ! i) else Inl IndexError)"

text \<open>A list comprehension whose element expression may raise: the first exception wins.\<close>

fun mapE :: "('a \<Rightarrow> error + 'b) \<Rightarrow> 'a list \<Rightarrow> error + 'b list" where
  "mapE f [] = Inr []"
| "mapE f (x # xs) =
     (case f x of
        Inl e \<Rightarrow> Inl e
      | Inr y \<Rightarrow> (case mapE f xs of Inl e \<Rightarrow> Inl e | Inr ys \<Rightarrow> Inr (y # ys)))"

section \<open>JSON documents and the NuGet registry (nuget.py)\<close>

text \<open>
  The value of \<open>requests.get(url).json()\<close>. A JSON object is an association list
  read with \<open>map_of\<close>.
\<close>

datatype json =
    JNull | JBool bool | JNum int | JStr string
  | JArr "json list" | JObj "(string \<times> json) list"

text \<open>\<open>x[key]\<close> with a string key: KeyError on a dict without the key, TypeError on
  anything that is not a dict.\<close>

fun json_getitem :: "json \<Rightarrow> string \<Rightarrow> error + json" where
  "json_getitem (JObj kvs) k = (case map_of kvs k of None \<Rightarrow> Inl KeyError | Some v \<Rightarrow> Inr v)"
| "json_getitem _ k = Inl TypeError"

text \<open>\<open>for x in v\<close>: a list gives its elements, a dict its keys, a string its
  characters; nothing else is iterable.\<close>

fun json_iter :: "json \<Rightarrow> error + json list" where
  "json_iter (JArr xs) = Inr xs"
| "json_iter (JObj kvs) = Inr (map (\<lambda>kv. JStr (fst kv)) kvs)"
| "json_iter (JStr s) = Inr (map (\<lambda>c. JStr [c]) s)"
| "json_iter _ = Inl TypeError"

text \<open>
  The world outside the two scripts, as the functions they call:
  \<^item> \<open>requests_get url\<close> is \<open>requests.get(url).json()\<close>;
  \<^item> \<open>py_str v\<close> is how an f-string formats a JSON value (a string formats as itself);
  \<^item> \<open>xml_parse path\<close> is \<open>ElementTree.parse(path).getroot()\<close>;
  \<^item> \<open>isfile\<close>, \<open>dirname\<close>, \<open>basename\<close>, \<open>splitext\<close>, \<open>path_join\<close> and \<open>walk\<close>
    are the functions of \<open>os\<close> and \<open>os.path\<close>.
\<close>

datatype xml =
  Element (el_tag: string) (el_attrib: "(string \<times> string) list")
          (el_text: "string option") (el_children: "xml list")

record env =
  requests_get :: "string \<Rightarrow> error + json"
  py_str :: "json \<Rightarrow> string"
  xml_parse :: "string \<Rightarrow> error + xml"
  isfile :: "string \<Rightarrow> bool"
  dirname :: "string \<Rightarrow> string"
  basename :: "string \<Rightarrow> string"
  splitext :: "string \<Rightarrow> string \<times> string"
  path_join :: "string \<Rightarrow> string \<Rightarrow> string"
  walk :: "string \<Rightarrow> (string \<times> string list \<times> string list) list"

text \<open>
  The requests sent so far are kept in a log (a list of URLs, oldest first), threaded
  through every function that reaches the network.
\<close>

type_synonym log = "string list"

record NugetServiceIndex =
  api_index :: json

definition NugetServiceIndex_init :: "env \<Rightarrow> log \<Rightarrow> (error + NugetServiceIndex) \<times> log" where
  "NugetServiceIndex_init E lg =
     (case requests_get E ''https://api.nuget.org/v3/index.json'' of
        Inl e \<Rightarrow> Inl e
      | Inr j \<Rightarrow> Inr \<lparr>api_index = j\<rparr>,
      lg @ [''https://api.nuget.org/v3/index.json''])"

text \<open>The filter of \<open>get_service_id\<close>: \<open>[x for x in resources if x['@type'] == name]\<close>.\<close>

fun services_of_type :: "string \<Rightarrow> json list \<Rightarrow> error + json list" where
  "services_of_type nm [] = Inr []"
| "services_of_type nm (x # xs) =
     (case json_getitem x ''@type'' of
        Inl e \<Rightarrow> Inl e
      | Inr t \<Rightarrow>
          (case services_of_type nm xs of
             Inl e \<Rightarrow> Inl e
           | Inr ys \<Rightarrow> Inr (if t = JStr nm then x # ys else ys)))"

definition get_service_id :: "NugetServiceIndex \<Rightarrow> string \<Rightarrow> error + json" where
  "get_service_id idx service_name =
     (case json_getitem (api_index idx) ''resources'' of
        Inl e \<Rightarrow> Inl e
      | Inr res \<Rightarrow>
          (case json_iter res of
             Inl e \<Rightarrow> Inl e
           | Inr xs \<Rightarrow>
               (case services_of_type service_name xs of
                  Inl e \<Rightarrow> Inl e
                | Inr [] \<Rightarrow> Inl StopIteration
                | Inr (service # _) \<Rightarrow> json_getitem service ''@id'')))"

record NugetPackageMetadata =
  registration_info :: json

definition NugetPackageMetadata_init ::
  "env \<Rightarrow> NugetServiceIndex \<Rightarrow> string \<Rightarrow> log \<Rightarrow> (error + NugetPackageMetadata) \<times> log" where
  "NugetPackageMetadata_init E service_index package_id lg =
     (case get_service_id service_index ''RegistrationsBaseUrl'' of
        Inl e \<Rightarrow> (Inl e, lg)
      | Inr uri \<Rightarrow>
          (let url = py_str E uri @ lower package_id @ ''/index.json'' in
           (case requests_get E url of
              Inl e \<Rightarrow> Inl e
            | Inr j \<Rightarrow> Inr \<lparr>registration_info = j\<rparr>,
            lg @ [url])))"

definition get_latest_version :: "NugetPackageMetadata \<Rightarrow> error + json list" where
  "get_latest_version m =
     (case json_getitem (registration_info m) ''items'' of
        Inl e \<Rightarrow> Inl e
      | Inr its \<Rightarrow>
          (case json_iter its of
             Inl e \<Rightarrow> Inl e
           | Inr xs \<Rightarrow> mapE (\<lambda>x. json_getitem x ''upper'') xs))"

section \<open>References (analyze_cs_projects.py)\<close>

text \<open>
  \<open>NuGetPackage\<close>: the three attributes of a \<open>package\<close> element, each absent
  (\<open>None\<close>) when the element does not carry it.
\<close>

record NuGetPackage =
  pkg_Id :: "string option"
  pkg_Version :: "string option"
  TargetFramework :: "string option"

record Reference =
  FullName :: string
  Name :: string
  Version :: string
  IsNuGetPackage :: bool
  LatestVersion :: "string option"

text \<open>\<open>", ".join(labels)\<close>: TypeError unless every label is a string.\<close>

definition join_labels :: "json list \<Rightarrow> error + string" where
  "join_labels js =
     (case mapE (\<lambda>j. case j of JStr s \<Rightarrow> Inr s | _ \<Rightarrow> Inl TypeError) js of
        Inl e \<Rightarrow> Inl e
      | Inr ss \<Rightarrow> Inr (join '', '' ss))"

text \<open>
  \<open>Reference.__init__\<close>. The declared name is what \<open>reference.get("Include")\<close>
  returned, so it may be \<open>None\<close>, on which \<open>split\<close> raises AttributeError.
\<close>

definition Reference_init ::
  "env \<Rightarrow> NugetServiceIndex \<Rightarrow> string option \<Rightarrow> NuGetPackage list option \<Rightarrow> log
     \<Rightarrow> (error + Reference) \<times> log" where
  "Reference_init E nuget_service_index reference_name nuget_packages lg =
     (case reference_name of
        None \<Rightarrow> (Inl AttributeError, lg)
      | Some full \<Rightarrow>
          (let tokens = split full CHR '','' in
           case getitem tokens 0 of
             Inl e \<Rightarrow> (Inl e, lg)
           | Inr nm \<Rightarrow>
               (case (if length tokens > 1
                      then (case getitem tokens 1 of
                              Inl e \<Rightarrow> Inl e
                            | Inr t \<Rightarrow> getitem (split t CHR ''='') 1)
                      else Inr '''') of
                  Inl e \<Rightarrow> (Inl e, lg)
                | Inr ver \<Rightarrow>
                    (case nuget_packages of
                       None \<Rightarrow>
                         (Inr \<lparr>FullName = full, Name = nm, Version = ver,
                               IsNuGetPackage = False, LatestVersion = None\<rparr>, lg)
                     | Some pkgs \<Rightarrow>
                         (if filter (\<lambda>p. pkg_Id p = Some nm) pkgs \<noteq> []
                          then
                            (case NugetPackageMetadata_init E nuget_service_index nm lg of
                               (Inl e, lg') \<Rightarrow> (Inl e, lg')
                             | (Inr metadata, lg') \<Rightarrow>
                                 (case get_latest_version metadata of
                                    Inl e \<Rightarrow> (Inl e, lg')
                                  | Inr labels \<Rightarrow>
                                      (case join_labels labels of
                                         Inl e \<Rightarrow> (Inl e, lg')
                                       | Inr latest \<Rightarrow>
                                           (Inr \<lparr>FullName = full, Name = nm, Version = ver,
                                                 IsNuGetPackage = True,
                                                 LatestVersion = Some latest\<rparr>, lg'))))
                          else
                            (Inr \<lparr>FullName = full, Name = nm, Version = ver,
                                  IsNuGetPackage = False, LatestVersion = None\<rparr>, lg))))))"

section \<open>Projects\<close>

text \<open>
  \<open>ProjectInfo\<close>. Its \<open>Name\<close> is the field \<open>proj_Name\<close> here, as \<open>Id\<close> and
  \<open>Version\<close> of a package are \<open>pkg_Id\<close> and \<open>pkg_Version\<close>: a reference has a
  \<open>Name\<close> and a \<open>Version\<close> too. \<open>References\<close> is tested against \<open>None\<close> by the
  matrix builder, so the field is optional here; \<open>declared\<close> reads it as a list.
\<close>

record ProjectInfo =
  proj_Name :: string
  File :: string
  TargetFrameworkVersion :: "string option"
  References :: "Reference list option"
  ng_packages :: "NuGetPackage list option"

definition declared :: "ProjectInfo \<Rightarrow> Reference list" where
  "declared p = (case References p of None \<Rightarrow> [] | Some rs \<Rightarrow> rs)"

definition get_project_name :: "env \<Rightarrow> string \<Rightarrow> string" where
  "get_project_name E file = fst (splitext E (basename E file))"

definition ProjectInfo_init ::
  "env \<Rightarrow> string \<Rightarrow> string option \<Rightarrow> Reference list option \<Rightarrow> NuGetPackage list option
     \<Rightarrow> ProjectInfo" where
  "ProjectInfo_init E file target_framework_version references packages =
     \<lparr>proj_Name = get_project_name E file, File = file,
      TargetFrameworkVersion = target_framework_version,
      References = references, ng_packages = packages\<rparr>"

subsection \<open>Reading the XML documents\<close>

text \<open>
  \<open>root.findall(path)\<close> for a path of tag names: the children of \<open>root\<close> with the
  first tag, their children with the second, and so on, in document order.
  \<open>element.get(key)\<close> is the attribute, or \<open>None\<close>.
\<close>

fun findall :: "xml \<Rightarrow> string list \<Rightarrow> xml list" where
  "findall root [] = [root]"
| "findall root (t # ts) =
     concat (map (\<lambda>c. if el_tag c = t then findall c ts else []) (el_children root))"

definition el_get :: "xml \<Rightarrow> string \<Rightarrow> string option" where
  "el_get e k = map_of (el_attrib e) k"

definition ns :: string where
  "ns = ''{http://schemas.microsoft.com/developer/msbuild/2003}''"

definition read_project_nuget_packages :: "env \<Rightarrow> string \<Rightarrow> error + NuGetPackage list option" where
  "read_project_nuget_packages E project_file =
     (let ng_file = dirname E project_file @ CHR 0x5C # ''packages.config'' in
      if isfile E ng_file
      then (case xml_parse E ng_file of
              Inl e \<Rightarrow> Inl e
            | Inr root \<Rightarrow>
                Inr (Some (map (\<lambda>package.
                                  \<lparr>pkg_Id = el_get package ''id'',
                                   pkg_Version = el_get package ''version'',
                                   TargetFramework = el_get package ''targetFramework''\<rparr>)
                               (findall root [''package'']))))
      else Inr None)"

subsection \<open>The shared table of references\<close>

text \<open>
  The part of the analyzer that changes while the project files are read: the dictionary
  \<open>all_references\<close> (keyed by the declared reference string as the \<open>Include\<close>
  attribute gave it, in insertion order) and the log of requests.

  A \<open>Reference\<close> object has no \<open>__eq__\<close>: Python compares and hashes it by identity.
  Objects are made in one place only, the loop below, which stores each one under its
  declared string; the record carries that string as \<open>FullName\<close>, so two records of a
  run are equal exactly when they are the same object (lemma \<open>read_projects_table\<close>).
\<close>

record analyzer_state =
  all_references :: "(string option \<times> Reference) list"
  requests :: log

text \<open>The body of the loop over \<open>references_names\<close>: the record to append.\<close>

definition register_reference ::
  "env \<Rightarrow> NugetServiceIndex \<Rightarrow> NuGetPackage list option \<Rightarrow> string option \<Rightarrow> analyzer_state
     \<Rightarrow> (error + Reference) \<times> analyzer_state" where
  "register_reference E idx packages ref_name st =
     (case (if map_of (all_references st) ref_name = None
            then (case Reference_init E idx ref_name packages (requests st) of
                    (Inl e, lg) \<Rightarrow> (Inl e, st\<lparr>requests := lg\<rparr>)
                  | (Inr r, lg) \<Rightarrow>
                      (Inr (),
                       st\<lparr>all_references := AList.update ref_name r (all_references st),
                          requests := lg\<rparr>))
            else (Inr (), st)) of
        (Inl e, st') \<Rightarrow> (Inl e, st')
      | (Inr _, st') \<Rightarrow>
          (case map_of (all_references st') ref_name of
             None \<Rightarrow> (Inl KeyError, st')
           | Some r \<Rightarrow> (Inr r, st')))"

fun read_references ::
  "env \<Rightarrow> NugetServiceIndex \<Rightarrow> NuGetPackage list option \<Rightarrow> string option list
     \<Rightarrow> Reference list \<Rightarrow> analyzer_state \<Rightarrow> (error + Reference list) \<times> analyzer_state" where
  "read_references E idx packages [] references st = (Inr references, st)"
| "read_references E idx packages (ref_name # rest) references st =
     (case register_reference E idx packages ref_name st of
        (Inl e, st') \<Rightarrow> (Inl e, st')
      | (Inr r, st') \<Rightarrow> read_references E idx packages rest (references @ [r]) st')"

definition references_names :: "xml \<Rightarrow> string option list" where
  "references_names root =
     map (\<lambda>reference. el_get reference ''Include'')
         (findall root [ns @ ''ItemGroup'', ns @ ''Reference''])"

text \<open>
  \<open>__read_project_info\<close>. The two \<open>try\<close> blocks catch everything raised inside them;
  the two parses stand outside them. What the reference loop stored and requested before
  it raised stays.
\<close>

definition read_project_info ::
  "env \<Rightarrow> NugetServiceIndex \<Rightarrow> string \<Rightarrow> string \<Rightarrow> analyzer_state
     \<Rightarrow> (error + ProjectInfo) \<times> analyzer_state" where
  "read_project_info E idx folder file st =
     (case read_project_nuget_packages E file of
        Inl e \<Rightarrow> (Inl e, st)
      | Inr packages \<Rightarrow>
          (case xml_parse E file of
             Inl e \<Rightarrow> (Inl e, st)
           | Inr root \<Rightarrow>
               (let version =
                      (case getitem (findall root [ns @ ''PropertyGroup'',
                                                   ns @ ''TargetFrameworkVersion'']) 0 of
                         Inl e \<Rightarrow> None
                       | Inr el \<Rightarrow> el_text el);
                    (references, st') =
                      (case read_references E idx packages (references_names root) [] st of
                         (Inl e, st') \<Rightarrow> ([], st')
                       | (Inr refs, st') \<Rightarrow> (refs, st'));
                    file_relative = drop (length folder) file
                in (Inr (ProjectInfo_init E file_relative version (Some references) packages),
                    st'))))"

fun read_projects ::
  "env \<Rightarrow> NugetServiceIndex \<Rightarrow> string \<Rightarrow> string list \<Rightarrow> analyzer_state
     \<Rightarrow> (error + ProjectInfo list) \<times> analyzer_state" where
  "read_projects E idx folder [] st = (Inr [], st)"
| "read_projects E idx folder (f # fs) st =
     (case read_project_info E idx folder f st of
        (Inl e, st') \<Rightarrow> (Inl e, st')
      | (Inr p, st') \<Rightarrow>
          (case read_projects E idx folder fs st' of
             (Inl e, st'') \<Rightarrow> (Inl e, st'')
           | (Inr ps, st'') \<Rightarrow> (Inr (p # ps), st'')))"

definition get_files_in_folder :: "env \<Rightarrow> string \<Rightarrow> string \<Rightarrow> string list" where
  "get_files_in_folder E dir extension =
     (let files = map (\<lambda>(dirpath, dirnames, filenames). map (path_join E dirpath) filenames)
                      (filter (\<lambda>(dirpath, dirnames, filenames). length filenames > 0)
                              (walk E dir));
          files_flat = concat files;
          extension = upper extension
      in filter (\<lambda>filename. upper (snd (splitext E filename)) = extension) files_flat)"

section \<open>The usage matrix\<close>

text \<open>
  \<open>ReferencesMatrix\<close>: \<open>uses\<close> is a dictionary from reference to a list of booleans,
  in insertion order. The inner loop runs over the references of project \<open>project_id\<close>,
  the outer one over \<open>enumerate(projects_info)\<close>.
\<close>

type_synonym uses = "(Reference \<times> bool list) list"

record ReferencesMatrix =
  uses :: uses
  rm_projects_info :: "ProjectInfo list"

fun mark_references :: "nat \<Rightarrow> nat \<Rightarrow> Reference list \<Rightarrow> uses \<Rightarrow> error + uses" where
  "mark_references nr_projects project_id [] u = Inr u"
| "mark_references nr_projects project_id (r # rs) u =
     (let u1 = (if map_of u r = None then AList.update r (replicate nr_projects False) u
                else u)
      in case map_of u1 r of
           None \<Rightarrow> Inl KeyError
         | Some row \<Rightarrow>
             if project_id < length row
             then mark_references nr_projects project_id rs
                    (AList.update r (row[project_id := True]) u1)
             else Inl IndexError)"

fun mark_projects :: "nat \<Rightarrow> nat \<Rightarrow> ProjectInfo list \<Rightarrow> uses \<Rightarrow> error + uses" where
  "mark_projects nr_projects project_id [] u = Inr u"
| "mark_projects nr_projects project_id (p # ps) u =
     (case References p of
        None \<Rightarrow> mark_projects nr_projects (Suc project_id) ps u
      | Some rs \<Rightarrow>
          (case mark_references nr_projects project_id rs u of
             Inl e \<Rightarrow> Inl e
           | Inr u' \<Rightarrow> mark_projects nr_projects (Suc project_id) ps u'))"

definition ReferencesMatrix_init :: "ProjectInfo list \<Rightarrow> error + ReferencesMatrix" where
  "ReferencesMatrix_init ps =
     (case mark_projects (length ps) 0 ps [] of
        Inl e \<Rightarrow> Inl e
      | Inr u \<Rightarrow> Inr \<lparr>uses = u, rm_projects_info = ps\<rparr>)"

section \<open>The report\<close>

text \<open>
  The document built through \<open>yattag\<close>, as the tree of its calls: \<open>with tag(t)\<close>
  is a \<open>Tag\<close> node around what is emitted inside it, \<open>text(s)\<close> a \<open>Text\<close> leaf,
  \<open>asis(s)\<close> of a literal an \<open>Asis\<close> leaf, and \<open>line(t, s)\<close> a tag around one text.
  \<open>getvalue()\<close> is the list of nodes emitted so far; \<open>asis\<close> of another document's
  value splices its nodes in.
\<close>

datatype html = Tag string "html list" | Text string | Asis string

definition line :: "string \<Rightarrow> string \<Rightarrow> html" where
  "line t s = Tag t [Text s]"

record HtmlFormatter =
  projects_info :: "ProjectInfo list"
  reference_matrix :: ReferencesMatrix

definition get_framework_table :: "HtmlFormatter \<Rightarrow> html list" where
  "get_framework_table self =
     [Tag ''table''
        (Tag ''tr'' [line ''th'' ''Project'', line ''th'' ''TargetFrameworkVersion'']
         # map (\<lambda>project.
                  Tag ''tr''
                    [line ''td'' (proj_Name project),
                     line ''td'' (case TargetFrameworkVersion project of
                                    Some v \<Rightarrow> v | None \<Rightarrow> [])])
               (projects_info self))]"

text \<open>The cells of one reference row after the first four: one per project index.\<close>

definition presence_cells :: "HtmlFormatter \<Rightarrow> Reference \<Rightarrow> error + html list" where
  "presence_cells self reference =
     mapE (\<lambda>projectid.
             case map_of (uses (reference_matrix self)) reference of
               None \<Rightarrow> Inl KeyError
             | Some row \<Rightarrow>
                 (case getitem row projectid of
                    Inl e \<Rightarrow> Inl e
                  | Inr b \<Rightarrow> Inr (line ''td'' (if b then ''*'' else []))))
          [0..<length (projects_info self)]"

definition reference_row :: "HtmlFormatter \<Rightarrow> Reference \<Rightarrow> error + html" where
  "reference_row self reference =
     (case presence_cells self reference of
        Inl e \<Rightarrow> Inl e
      | Inr cells \<Rightarrow>
          Inr (Tag ''tr''
                 ([line ''td'' (Name reference),
                   line ''td'' (Version reference),
                   line ''td'' (if IsNuGetPackage reference then ''Y'' else ''N''),
                   line ''td'' (case LatestVersion reference of
                                  Some v \<Rightarrow> v | None \<Rightarrow> [])]
                  @ cells)))"

definition get_references_table :: "HtmlFormatter \<Rightarrow> error + html list" where
  "get_references_table self =
     (let header =
            Tag ''tr''
              ([line ''th'' ''Reference'', line ''th'' ''Version'',
                line ''th'' ''IsNuGetPackage'', line ''th'' ''LatestVersion'']
               @ map (\<lambda>project. line ''th'' (proj_Name project)) (projects_info self));
          references = map fst (uses (reference_matrix self))
      in case mapE (reference_row self) (sort_key Name references) of
           Inl e \<Rightarrow> Inl e
         | Inr rows \<Rightarrow> Inr [Tag ''table'' (header # rows)])"

definition get_output :: "HtmlFormatter \<Rightarrow> error + html list" where
  "get_output self =
     (case get_references_table self of
        Inl e \<Rightarrow> Inl e
      | Inr references_table \<Rightarrow>
          Inr [Asis ''<!DOCTYPE html>'',
               Tag ''html''
                 [Tag ''head''
                    [Tag ''style''
                       [Text (''table, th, td {border: 1px solid black; ''
                              @ ''border-collapse: collapse; }'')]],
                  Tag ''body''
                    [Tag ''div''
                       (line ''h1'' ''.NET Framework versions'' # get_framework_table self),
                     Tag ''div''
                       (line ''h1'' ''References'' # references_table)]]])"

section \<open>The analyzer\<close>

record ProjectsAnalyzer =
  folder :: string
  pa_all_references :: "(string option \<times> Reference) list"
  nuget_service_index :: NugetServiceIndex
  pa_projects_info :: "ProjectInfo list"
  pa_reference_matrix :: ReferencesMatrix
  pa_requests :: log

definition ProjectsAnalyzer_init :: "env \<Rightarrow> string \<Rightarrow> error + ProjectsAnalyzer" where
  "ProjectsAnalyzer_init E dir =
     (let files = get_files_in_folder E dir ''.csproj'' in
      case NugetServiceIndex_init E [] of
        (Inl e, lg) \<Rightarrow> Inl e
      | (Inr idx, lg) \<Rightarrow>
          (case read_projects E idx dir files \<lparr>all_references = [], requests = lg\<rparr> of
             (Inl e, st) \<Rightarrow> Inl e
           | (Inr ps, st) \<Rightarrow>
               (case ReferencesMatrix_init ps of
                  Inl e \<Rightarrow> Inl e
                | Inr m \<Rightarrow>
                    Inr \<lparr>folder = dir, pa_all_references = all_references st,
                         nuget_service_index = idx, pa_projects_info = ps,
                         pa_reference_matrix = m, pa_requests = requests st\<rparr>)))"

text \<open>
  \<open>generate_and_show_report\<close> up to the document it writes: the temporary file and the
  browser are outside the model.
\<close>

definition generate_report :: "ProjectsAnalyzer \<Rightarrow> error + html list" where
  "generate_report self =
     get_output \<lparr>projects_info = pa_projects_info self,
                 reference_matrix = pa_reference_matrix self\<rparr>"

definition run :: "env \<Rightarrow> string \<Rightarrow> error + html list" where
  "run E dir =
     (case ProjectsAnalyzer_init E dir of
        Inl e \<Rightarrow> Inl e
      | Inr analyzer \<Rightarrow> generate_report analyzer)"

section \<open>A sample run\<close>

text \<open>
  A small world to run the analyzer in: folder \<open>/src\<close> holds project \<open>A\<close>, which
  references \<open>Foo\<close> and has no package manifest, and project \<open>B\<close>, which references
  \<open>Foo, Version=1.0.0.0\<close> and has a manifest listing the package \<open>Foo\<close>; the
  registry knows \<open>Foo\<close> with the latest label \<open>2.0.0\<close>. Folder \<open>/lib\<close> holds
  project \<open>C\<close>, with no framework version and no reference, and folder \<open>/bad\<close> a
  project file \<open>D\<close> that does not parse. Folder \<open>/docs\<close> holds no project file.
  Folder \<open>/dup\<close> holds projects \<open>P\<close> and \<open>Q\<close>, which both reference \<open>Bar\<close> and list
  it in their manifests; the registry does not answer for \<open>Bar\<close>. Folder \<open>/part\<close> holds
  project \<open>R\<close>, with three reference elements: \<open>Foo\<close>, one without an \<open>Include\<close>
  attribute, and \<open>Baz\<close>. Every other folder is
  empty and every other URL fails. \<open>offline_env\<close> is the same world with no network.
\<close>

definition sample_index :: json where
  "sample_index =
     JObj [(''resources'',
            JArr [JObj [(''@id'', JStr ''https://reg/query''),
                        (''@type'', JStr ''SearchQueryService'')],
                  JObj [(''@id'', JStr ''https://reg/v3/''),
                        (''@type'', JStr ''RegistrationsBaseUrl'')]])]"

definition sample_get :: "string \<Rightarrow> error + json" where
  "sample_get url =
     (if url = ''https://api.nuget.org/v3/index.json'' then Inr sample_index
      else if url = ''https://reg/v3/foo/index.json''
      then Inr (JObj [(''items'', JArr [JObj [(''upper'', JStr ''2.0.0'')]])])
      else Inl RequestError)"

definition sample_str :: "json \<Rightarrow> string" where
  "sample_str j = (case j of JStr s \<Rightarrow> s | _ \<Rightarrow> [])"

definition csproj :: "string option \<Rightarrow> string option list \<Rightarrow> xml" where
  "csproj v refs =
     Element ''Project'' [] None
       ((case v of None \<Rightarrow> []
         | Some s \<Rightarrow> [Element (ns @ ''PropertyGroup'') [] None
                        [Element (ns @ ''TargetFrameworkVersion'') [] (Some s) []]])
        @ [Element (ns @ ''ItemGroup'') [] None
             (map (\<lambda>r. Element (ns @ ''Reference'')
                           (case r of None \<Rightarrow> [] | Some s \<Rightarrow> [(''Include'', s)]) None [])
                  refs)])"

definition sample_parse :: "string \<Rightarrow> error + xml" where
  "sample_parse path =
     (if path = ''/src/A/A.csproj'' then Inr (csproj None [Some ''Foo''])
      else if path = ''/src/B/B.CSPROJ''
      then Inr (csproj (Some ''v4.8'') [Some ''Foo, Version=1.0.0.0''])
      else if path = ''/src/B'' @ CHR 0x5C # ''packages.config''
      then Inr (Element ''packages'' [] None
                  [Element ''package'' [(''id'', ''Foo''), (''version'', ''1.0.0'')] None []])
      else if path = ''/lib/C.csproj'' then Inr (csproj None [])
      else if path = ''/part/R.csproj''
      then Inr (csproj None [Some ''Foo'', None, Some ''Baz''])
      else if path = ''/dup/P/P.csproj'' \<or> path = ''/dup/Q/Q.csproj''
      then Inr (csproj None [Some ''Bar''])
      else if path = ''/dup/P'' @ CHR 0x5C # ''packages.config''
            \<or> path = ''/dup/Q'' @ CHR 0x5C # ''packages.config''
      then Inr (Element ''packages'' [] None
                  [Element ''package'' [(''id'', ''Bar''), (''version'', ''3.1.0'')] None []])
      else Inl ParseError)"

definition sample_dirname :: "string \<Rightarrow> string" where
  "sample_dirname p = rev (tl (dropWhile (\<lambda>c. c \<noteq> CHR ''/'') (rev p)))"

definition sample_basename :: "string \<Rightarrow> string" where
  "sample_basename p = rev (takeWhile (\<lambda>c. c \<noteq> CHR ''/'') (rev p))"

definition sample_splitext :: "string \<Rightarrow> string \<times> string" where
  "sample_splitext p =
     (if CHR ''.'' \<in> set p
      then (rev (tl (dropWhile (\<lambda>c. c \<noteq> CHR ''.'') (rev p))),
            CHR ''.'' # rev (takeWhile (\<lambda>c. c \<noteq> CHR ''.'') (rev p)))
      else (p, []))"

definition sample_walk :: "string \<Rightarrow> (string \<times> string list \<times> string list) list" where
  "sample_walk d =
     (if d = ''/src''
      then [(''/src'', [''A'', ''B''], [''readme.txt'']),
            (''/src/A'', [], [''A.csproj'']),
            (''/src/B'', [], [''B.CSPROJ'', ''packages.config''])]
      else if d = ''/lib'' then [(''/lib'', [], [''C.csproj''])]
      else if d = ''/bad'' then [(''/bad'', [], [''D.csproj''])]
      else if d = ''/part'' then [(''/part'', [], [''R.csproj''])]
      else if d = ''/docs'' then [(''/docs'', [], [''readme.txt'', ''notes.md''])]
      else if d = ''/dup''
      then [(''/dup'', [''P'', ''Q''], []),
            (''/dup/P'', [], [''P.csproj'', ''packages.config'']),
            (''/dup/Q'', [], [''Q.csproj'', ''packages.config''])]
      else [(d, [], [])])"

definition sample_env :: env where
  "sample_env =
     \<lparr>requests_get = sample_get, py_str = sample_str, xml_parse = sample_parse,
      isfile = (\<lambda>p. p = ''/src/B'' @ CHR 0x5C # ''packages.config''
                     \<or> p = ''/dup/P'' @ CHR 0x5C # ''packages.config''
                     \<or> p = ''/dup/Q'' @ CHR 0x5C # ''packages.config''),
      dirname = sample_dirname, basename = sample_basename, splitext = sample_splitext,
      path_join = (\<lambda>a b. a @ ''/'' @ b), walk = sample_walk\<rparr>"

definition offline_env :: env where
  "offline_env = sample_env\<lparr>requests_get := (\<lambda>url. Inl RequestError)\<rparr>"

definition sample_service_index :: NugetServiceIndex where
  "sample_service_index = \<lparr>api_index = sample_index\<rparr>"


text \<open>The two references and the two projects the analyzer builds in \<open>/src\<close>.\<close>

definition sample_foo :: Reference where
  "sample_foo =
     \<lparr>FullName = ''Foo'', Name = ''Foo'', Version = [],
      IsNuGetPackage = False, LatestVersion = None\<rparr>"

definition sample_foo_1 :: Reference where
  "sample_foo_1 =
     \<lparr>FullName = ''Foo, Version=1.0.0.0'', Name = ''Foo'', Version = ''1.0.0.0'',
      IsNuGetPackage = True, LatestVersion = Some ''2.0.0''\<rparr>"

definition sample_project_A :: ProjectInfo where
  "sample_project_A =
     \<lparr>proj_Name = ''A'', File = ''/A/A.csproj'', TargetFrameworkVersion = None,
      References = Some [sample_foo], ng_packages = None\<rparr>"

definition sample_project_B :: ProjectInfo where
  "sample_project_B =
     \<lparr>proj_Name = ''B'', File = ''/B/B.CSPROJ'', TargetFrameworkVersion = Some ''v4.8'',
      References = Some [sample_foo_1],
      ng_packages = Some [\<lparr>pkg_Id = Some ''Foo'', pkg_Version = Some ''1.0.0'',
                           TargetFramework = None\<rparr>]\<rparr>"

section \<open>Invariant of the shared table\<close>

text \<open>
  Keys are distinct and every record is stored under its own declared string.
\<close>

definition table_ok :: "(string option \<times> Reference) list \<Rightarrow> bool" where
  "table_ok tbl \<longleftrightarrow>
     distinct (map fst tbl) \<and> (\<forall>kr\<in>set tbl. fst kr = Some (FullName (snd kr)))"

text \<open>Every record is what the constructor returned for the string it is stored under.\<close>

definition table_built ::
  "env \<Rightarrow> NugetServiceIndex \<Rightarrow> (string option \<times> Reference) list \<Rightarrow> bool" where
  "table_built E idx tbl \<longleftrightarrow>
     (\<forall>kr\<in>set tbl. \<exists>packages lg lg'.
        Reference_init E idx (fst kr) packages lg = (Inr (snd kr), lg'))"

section \<open>Splitting strings\<close>

lemma split_not_Nil: "split s c \<noteq> []"
  by (induction s) (auto split: list.splits)

lemma split_no_sep: "c \<notin> set s \<Longrightarrow> split s c = [s]"
  by (induction s) auto

lemma split_at_sep: "c \<notin> set a \<Longrightarrow> split (a @ c # rest) c = a # split rest c"
  by (induction a) auto

lemma hd_split: "hd (split s c) = takeWhile (\<lambda>x. x \<noteq> c) s"
  by (induction s) (auto split: list.splits simp: split_not_Nil)

lemma length_split_gt1: "Suc 0 < length (split s c) \<longleftrightarrow> c \<in> set s"
  by (induction s) (auto split: list.splits simp: split_not_Nil)

section \<open>Constructing a reference\<close>

lemma Reference_init_Some_fields:
  assumes "Reference_init E idx (Some s) pk lg = (Inr r, lg')"
  shows "FullName r = s"
    and "Name r = hd (split s CHR '','')"
    and "1 < length (split s CHR '','') \<Longrightarrow> 1 < length (split (split s CHR '','' ! 1) CHR ''='')"
    and "Version r = (if 1 < length (split s CHR '','') then split (split s CHR '','' ! 1) CHR ''='' ! 1 else [])"
  using assms
  by (auto simp: Reference_init_def Let_def getitem_def hd_conv_nth split_not_Nil
      split: sum.splits option.splits if_splits prod.splits)

lemma Reference_init_None: "Reference_init E idx None pk lg = (Inl AttributeError, lg)"
  by (simp add: Reference_init_def)

lemma Reference_init_registry_state:
  assumes "Reference_init E idx nm pk lg = (Inr r, lg')"
  shows "IsNuGetPackage r \<longleftrightarrow> LatestVersion r \<noteq> None"
    and "IsNuGetPackage r \<longleftrightarrow> (\<exists>ps. pk = Some ps \<and> (\<exists>p\<in>set ps. pkg_Id p = Some (Name r)))"
  using assms
  by (auto simp: Reference_init_def Let_def getitem_def filter_empty_conv
      split: sum.splits option.splits if_splits prod.splits)

lemma Reference_init_no_match:
  assumes "\<forall>p\<in>set pkgs. pkg_Id p \<noteq> Some (takeWhile (\<lambda>c. c \<noteq> CHR '','') s)"
  shows "Reference_init E idx (Some s) (Some pkgs) lg = Reference_init E idx (Some s) None lg"
proof -
  have "filter (\<lambda>p. pkg_Id p = Some (split s CHR '','' ! 0)) pkgs = []"
    using assms by (simp add: filter_empty_conv hd_split [symmetric] hd_conv_nth split_not_Nil)
  then show ?thesis
    by (simp add: Reference_init_def Let_def getitem_def split_not_Nil
        split: sum.splits option.splits)
qed

lemma split_prefix:
  "c \<notin> set b \<Longrightarrow> rest = [] \<or> hd rest = c \<Longrightarrow> \<exists>ts. split (b @ rest) c = b # ts"
proof (induction b)
  case Nil
  then show ?case by (cases rest) auto
next
  case (Cons x b)
  then show ?case by auto
qed

lemma split_second:
  assumes "c \<notin> set a" "c \<notin> set b" "rest = [] \<or> hd rest = c"
  shows "1 < length (split (a @ c # b @ rest) c) \<and> split (a @ c # b @ rest) c ! 1 = b"
proof -
  obtain ts where "split (b @ rest) c = b # ts"
    using split_prefix [OF assms(2,3)] by blast
  then show ?thesis using assms(1) by (simp add: split_at_sep)
qed

text \<open>
  Claim C4. The reference value \<open>Newtonsoft.Json, Version=12.0.0.0, Culture=neutral\<close>
  gives the bare name \<open>Newtonsoft.Json\<close> and the version \<open>12.0.0.0\<close>. In general,
  whenever the construction succeeds, the bare name is the text before the first comma;
  the version is empty when there is no comma; and when the second comma-separated token
  is \<open>key=val\<close> (possibly followed by further \<open>=\<close> parts), the version is \<open>val\<close>.
\<close>

theorem reference_name_and_version:
  "Reference_init E idx (Some ''Newtonsoft.Json, Version=12.0.0.0, Culture=neutral'') None lg =
     (Inr \<lparr>FullName = ''Newtonsoft.Json, Version=12.0.0.0, Culture=neutral'',
           Name = ''Newtonsoft.Json'', Version = ''12.0.0.0'',
           IsNuGetPackage = False, LatestVersion = None\<rparr>, lg)
   \<and> (\<forall>r lg'. Reference_init E idx (Some s) pk lg = (Inr r, lg') \<longrightarrow>
          Name r = takeWhile (\<lambda>c. c \<noteq> CHR '','') s
        \<and> (CHR '','' \<notin> set s \<longrightarrow> Version r = [])
        \<and> (\<forall>nm tok rest key val more.
              s = nm @ CHR '','' # tok @ rest \<and> CHR '','' \<notin> set nm \<and> CHR '','' \<notin> set tok
              \<and> (rest = [] \<or> hd rest = CHR '','')
              \<and> tok = key @ CHR ''='' # val @ more \<and> CHR ''='' \<notin> set key
              \<and> CHR ''='' \<notin> set val \<and> (more = [] \<or> hd more = CHR ''='')
              \<longrightarrow> Name r = nm \<and> Version r = val))"
proof (intro conjI allI impI)
  show "Reference_init E idx (Some ''Newtonsoft.Json, Version=12.0.0.0, Culture=neutral'') None lg =
     (Inr \<lparr>FullName = ''Newtonsoft.Json, Version=12.0.0.0, Culture=neutral'',
           Name = ''Newtonsoft.Json'', Version = ''12.0.0.0'',
           IsNuGetPackage = False, LatestVersion = None\<rparr>, lg)"
    by (simp add: Reference_init_def getitem_def)
next
  fix r lg' assume "Reference_init E idx (Some s) pk lg = (Inr r, lg')"
  then show "Name r = takeWhile (\<lambda>c. c \<noteq> CHR '','') s"
    by (simp add: Reference_init_Some_fields(2) hd_split)
next
  fix r lg' assume "Reference_init E idx (Some s) pk lg = (Inr r, lg')" "CHR '','' \<notin> set s"
  then show "Version r = []"
    by (simp add: Reference_init_Some_fields(4) split_no_sep)
next
  fix r lg' nm tok rest key val more
  assume ok: "Reference_init E idx (Some s) pk lg = (Inr r, lg')"
    and h: "s = nm @ CHR '','' # tok @ rest \<and> CHR '','' \<notin> set nm \<and> CHR '','' \<notin> set tok
              \<and> (rest = [] \<or> hd rest = CHR '','')
              \<and> tok = key @ CHR ''='' # val @ more \<and> CHR ''='' \<notin> set key
              \<and> CHR ''='' \<notin> set val \<and> (more = [] \<or> hd more = CHR ''='')"
  from h have s: "s = nm @ CHR '','' # tok @ rest" by simp
  have tok: "1 < length (split s CHR '','') \<and> split s CHR '','' ! 1 = tok"
    unfolding s using h by (intro split_second) auto
  have "split tok CHR ''='' ! 1 = val"
    using h split_second [of "CHR ''=''" key val more] by simp
  with tok ok show "Version r = val"
    by (simp add: Reference_init_Some_fields(4))
  have "takeWhile (\<lambda>c. c \<noteq> CHR '','') s = nm"
    unfolding s using h by (auto simp: takeWhile_tail)
  with ok show "Name r = nm"
    by (simp add: Reference_init_Some_fields(2) hd_split)
qed


text \<open>
  An instance with a registry lookup: \<open>Foo, Version=1.0.0.0\<close> in a project whose
  manifest lists \<open>Foo\<close>.
\<close>

theorem reference_name_and_version_witness:
  "Reference_init sample_env sample_service_index (Some ''Foo, Version=1.0.0.0'')
     (Some [\<lparr>pkg_Id = Some ''Foo'', pkg_Version = Some ''1.0.0'', TargetFramework = None\<rparr>]) [] =
     (Inr \<lparr>FullName = ''Foo, Version=1.0.0.0'', Name = ''Foo'', Version = ''1.0.0.0'',
           IsNuGetPackage = True, LatestVersion = Some ''2.0.0''\<rparr>,
      [''https://reg/v3/foo/index.json''])
   \<and> ''Foo, Version=1.0.0.0'' = ''Foo'' @ CHR '','' # '' Version=1.0.0.0'' @ []
   \<and> '' Version=1.0.0.0'' = '' Version'' @ CHR ''='' # ''1.0.0.0'' @ []
   \<and> Name \<lparr>FullName = ''Foo, Version=1.0.0.0'', Name = ''Foo'', Version = ''1.0.0.0'',
           IsNuGetPackage = True, LatestVersion = Some ''2.0.0''\<rparr> = ''Foo''
   \<and> Version \<lparr>FullName = ''Foo, Version=1.0.0.0'', Name = ''Foo'', Version = ''1.0.0.0'',
           IsNuGetPackage = True, LatestVersion = Some ''2.0.0''\<rparr> = ''1.0.0.0''"
proof -
  let ?pk = "Some [\<lparr>pkg_Id = Some ''Foo'', pkg_Version = Some ''1.0.0'', TargetFramework = None\<rparr>]"
  let ?r = "\<lparr>FullName = ''Foo, Version=1.0.0.0'', Name = ''Foo'', Version = ''1.0.0.0'',
           IsNuGetPackage = True, LatestVersion = Some ''2.0.0''\<rparr>"
  have run: "Reference_init sample_env sample_service_index (Some ''Foo, Version=1.0.0.0'') ?pk [] =
     (Inr ?r, [''https://reg/v3/foo/index.json''])"
    by code_simp
  have "Name ?r = ''Foo'' \<and> Version ?r = ''1.0.0.0''"
    using reference_name_and_version
      [of sample_env sample_service_index "[]" "''Foo, Version=1.0.0.0''" ?pk,
       THEN conjunct2, rule_format, OF run, THEN conjunct2, THEN conjunct2, rule_format,
       of "''Foo''" "'' Version=1.0.0.0''" "[]" "'' Version''" "''1.0.0.0''" "[]"]
    by simp
  with run show ?thesis by simp
qed

text \<open>
  Claim C9. A constructed reference has a latest version exactly when it is flagged as a
  NuGet package; built without a manifest, or with a manifest none of whose entries has
  its bare name, it has no latest version.
\<close>

theorem latest_version_iff_package:
  "Reference_init E idx nm pk lg = (Inr r, lg') \<Longrightarrow>
     (LatestVersion r \<noteq> None \<longleftrightarrow> IsNuGetPackage r)
   \<and> (pk = None \<longrightarrow> LatestVersion r = None)
   \<and> (\<forall>ps. pk = Some ps \<and> (\<forall>p\<in>set ps. pkg_Id p \<noteq> Some (Name r)) \<longrightarrow> LatestVersion r = None)"
  using Reference_init_registry_state [of E idx nm pk lg r lg'] by auto

text \<open>Both kinds of record, built in the sample world.\<close>

theorem latest_version_iff_package_witness:
  "Reference_init sample_env sample_service_index (Some ''Foo, Version=1.0.0.0'')
     (Some [\<lparr>pkg_Id = Some ''Foo'', pkg_Version = Some ''1.0.0'', TargetFramework = None\<rparr>]) [] =
     (Inr \<lparr>FullName = ''Foo, Version=1.0.0.0'', Name = ''Foo'', Version = ''1.0.0.0'',
           IsNuGetPackage = True, LatestVersion = Some ''2.0.0''\<rparr>,
      [''https://reg/v3/foo/index.json''])
   \<and> (LatestVersion \<lparr>FullName = ''Foo, Version=1.0.0.0'', Name = ''Foo'', Version = ''1.0.0.0'',
           IsNuGetPackage = True, LatestVersion = Some ''2.0.0''\<rparr> \<noteq> None
        \<longleftrightarrow> IsNuGetPackage \<lparr>FullName = ''Foo, Version=1.0.0.0'', Name = ''Foo'',
           Version = ''1.0.0.0'', IsNuGetPackage = True, LatestVersion = Some ''2.0.0''\<rparr>)
   \<and> Reference_init sample_env sample_service_index (Some ''Foo'') None [] =
     (Inr \<lparr>FullName = ''Foo'', Name = ''Foo'', Version = [],
           IsNuGetPackage = False, LatestVersion = None\<rparr>, [])
   \<and> LatestVersion \<lparr>FullName = ''Foo'', Name = ''Foo'', Version = [],
           IsNuGetPackage = False, LatestVersion = None\<rparr> = None"
proof -
  let ?pk = "Some [\<lparr>pkg_Id = Some ''Foo'', pkg_Version = Some ''1.0.0'', TargetFramework = None\<rparr>]"
  have run1: "Reference_init sample_env sample_service_index (Some ''Foo, Version=1.0.0.0'') ?pk [] =
     (Inr \<lparr>FullName = ''Foo, Version=1.0.0.0'', Name = ''Foo'', Version = ''1.0.0.0'',
           IsNuGetPackage = True, LatestVersion = Some ''2.0.0''\<rparr>,
      [''https://reg/v3/foo/index.json''])"
    by code_simp
  have run2: "Reference_init sample_env sample_service_index (Some ''Foo'') None [] =
     (Inr \<lparr>FullName = ''Foo'', Name = ''Foo'', Version = [],
           IsNuGetPackage = False, LatestVersion = None\<rparr>, [])"
    by code_simp
  show ?thesis
    using run1 run2 latest_version_iff_package [OF run1] latest_version_iff_package [OF run2]
    by simp
qed

text \<open>
  Claim C10. Constructing a reference is partial: \<open>Foo, bar\<close> raises IndexError, and so
  does every declared string whose second comma-separated token has no \<open>=\<close>. When the
  string has no second token, or an \<open>=\<close> in it, the construction succeeds without a
  manifest, and with one it succeeds unless the registry has to be asked.
\<close>

theorem reference_init_index_error:
  "Reference_init E idx (Some ''Foo, bar'') pk lg = (Inl IndexError, lg)
   \<and> (1 < length (split s CHR '','') \<and> CHR ''='' \<notin> set (split s CHR '','' ! 1)
        \<longrightarrow> Reference_init E idx (Some s) pk lg = (Inl IndexError, lg))
   \<and> (\<not> (1 < length (split s CHR '','') \<and> CHR ''='' \<notin> set (split s CHR '','' ! 1))
        \<longrightarrow> (\<exists>r. Reference_init E idx (Some s) None lg = (Inr r, lg))
          \<and> ((\<exists>r lg'. Reference_init E idx (Some s) pk lg = (Inr r, lg'))
             \<or> (\<exists>ps. pk = Some ps
                  \<and> (\<exists>p\<in>set ps. pkg_Id p = Some (takeWhile (\<lambda>c. c \<noteq> CHR '','') s)))))"
proof (intro conjI impI)
  show "Reference_init E idx (Some ''Foo, bar'') pk lg = (Inl IndexError, lg)"
    by (simp add: Reference_init_def getitem_def)
next
  assume "1 < length (split s CHR '','') \<and> CHR ''='' \<notin> set (split s CHR '','' ! 1)"
  then show "Reference_init E idx (Some s) pk lg = (Inl IndexError, lg)"
    by (simp add: Reference_init_def Let_def getitem_def split_no_sep)
next
  assume h: "\<not> (1 < length (split s CHR '','') \<and> CHR ''='' \<notin> set (split s CHR '','' ! 1))"
  then have ver: "1 < length (split s CHR '','')
      \<Longrightarrow> 1 < length (split (split s CHR '','' ! 1) CHR ''='')"
    by (simp add: length_split_gt1)
  then show "\<exists>r. Reference_init E idx (Some s) None lg = (Inr r, lg)"
    by (simp add: Reference_init_def Let_def getitem_def split_not_Nil)
  show "(\<exists>r lg'. Reference_init E idx (Some s) pk lg = (Inr r, lg'))
             \<or> (\<exists>ps. pk = Some ps
                  \<and> (\<exists>p\<in>set ps. pkg_Id p = Some (takeWhile (\<lambda>c. c \<noteq> CHR '','') s)))"
  proof (cases pk)
    case None
    then show ?thesis using ver
      by (simp add: Reference_init_def Let_def getitem_def split_not_Nil)
  next
    case (Some ps)
    show ?thesis
    proof (cases "\<exists>p\<in>set ps. pkg_Id p = Some (takeWhile (\<lambda>c. c \<noteq> CHR '','') s)")
      case True
      then show ?thesis using Some by simp
    next
      case False
      then have "Reference_init E idx (Some s) pk lg = Reference_init E idx (Some s) None lg"
        unfolding Some by (intro Reference_init_no_match) simp
      then show ?thesis using ver
        by (simp add: Reference_init_def Let_def getitem_def split_not_Nil)
    qed
  qed
qed

text \<open>One string on each side of the precondition.\<close>

theorem reference_init_index_error_witness:
  "1 < length (split ''Foo, bar'' CHR '','')
   \<and> CHR ''='' \<notin> set (split ''Foo, bar'' CHR '','' ! 1)
   \<and> Reference_init sample_env sample_service_index (Some ''Foo, bar'') None [] = (Inl IndexError, [])
   \<and> \<not> (1 < length (split ''Foo, Version=1.0.0.0'' CHR '','')
         \<and> CHR ''='' \<notin> set (split ''Foo, Version=1.0.0.0'' CHR '','' ! 1))
   \<and> (\<exists>r. Reference_init sample_env sample_service_index (Some ''Foo, Version=1.0.0.0'') None []
            = (Inr r, []))"
proof -
  have a: "1 < length (split ''Foo, bar'' CHR '','')
      \<and> CHR ''='' \<notin> set (split ''Foo, bar'' CHR '','' ! 1)"
    by simp
  have b: "\<not> (1 < length (split ''Foo, Version=1.0.0.0'' CHR '','')
         \<and> CHR ''='' \<notin> set (split ''Foo, Version=1.0.0.0'' CHR '','' ! 1))"
    by simp
  note t1 = reference_init_index_error
    [of sample_env sample_service_index None "[]" "''Foo, bar''",
     THEN conjunct2, THEN conjunct1, rule_format, OF a]
  note t2 = reference_init_index_error
    [of sample_env sample_service_index None "[]" "''Foo, Version=1.0.0.0''",
     THEN conjunct2, THEN conjunct2, rule_format, OF b, THEN conjunct1]
  show ?thesis using a b t1 t2 by blast
qed

text \<open>
  Claim C3 as stated fails: a reference built with no manifest and the same reference
  built with a manifest that lists only another package are the same record.
\<close>

theorem three_state_counterexample:
  "Reference_init sample_env sample_service_index (Some ''Foo'') None [] =
     (Inr \<lparr>FullName = ''Foo'', Name = ''Foo'', Version = [],
           IsNuGetPackage = False, LatestVersion = None\<rparr>, [])
   \<and> Reference_init sample_env sample_service_index (Some ''Foo'')
       (Some [\<lparr>pkg_Id = Some ''Bar'', pkg_Version = Some ''1.0.0'', TargetFramework = None\<rparr>]) [] =
     (Inr \<lparr>FullName = ''Foo'', Name = ''Foo'', Version = [],
           IsNuGetPackage = False, LatestVersion = None\<rparr>, [])"
  by (simp add: Reference_init_def getitem_def)

text \<open>
  Claim C3, amended. A reference first seen in a project with no manifest is the record
  that a manifest without a matching entry gives: not flagged as a package, no latest
  version, and no request sent. The record has no third state.
\<close>

theorem no_manifest_same_as_no_match:
  "(\<forall>p\<in>set pkgs. pkg_Id p \<noteq> Some (takeWhile (\<lambda>c. c \<noteq> CHR '','') s)) \<Longrightarrow>
     Reference_init E idx (Some s) None lg = Reference_init E idx (Some s) (Some pkgs) lg
   \<and> (\<forall>r lg'. Reference_init E idx (Some s) None lg = (Inr r, lg') \<longrightarrow>
         \<not> IsNuGetPackage r \<and> LatestVersion r = None \<and> lg' = lg)"
proof (intro conjI allI impI)
  assume "\<forall>p\<in>set pkgs. pkg_Id p \<noteq> Some (takeWhile (\<lambda>c. c \<noteq> CHR '','') s)"
  then show "Reference_init E idx (Some s) None lg = Reference_init E idx (Some s) (Some pkgs) lg"
    by (rule Reference_init_no_match [symmetric])
next
  fix r lg' assume "Reference_init E idx (Some s) None lg = (Inr r, lg')"
  then show "\<not> IsNuGetPackage r" "LatestVersion r = None" "lg' = lg"
    by (auto simp: Reference_init_def Let_def getitem_def
        split: sum.splits option.splits if_splits)
qed

text \<open>An instance: a manifest that lists \<open>Bar\<close> only.\<close>

theorem no_manifest_same_as_no_match_witness:
  "pkg_Id \<lparr>pkg_Id = Some ''Bar'', pkg_Version = Some ''1.0.0'', TargetFramework = None\<rparr>
     \<noteq> Some (takeWhile (\<lambda>c. c \<noteq> CHR '','') ''Foo, Version=1.0.0.0'')
   \<and> Reference_init sample_env sample_service_index (Some ''Foo, Version=1.0.0.0'') None [] =
     Reference_init sample_env sample_service_index (Some ''Foo, Version=1.0.0.0'')
       (Some [\<lparr>pkg_Id = Some ''Bar'', pkg_Version = Some ''1.0.0'', TargetFramework = None\<rparr>]) []
   \<and> Reference_init sample_env sample_service_index (Some ''Foo, Version=1.0.0.0'') None [] =
     (Inr \<lparr>FullName = ''Foo, Version=1.0.0.0'', Name = ''Foo'', Version = ''1.0.0.0'',
           IsNuGetPackage = False, LatestVersion = None\<rparr>, [])"
proof -
  have h: "\<forall>p\<in>set [\<lparr>pkg_Id = Some ''Bar'', pkg_Version = Some ''1.0.0'', TargetFramework = None\<rparr>].
      pkg_Id p \<noteq> Some (takeWhile (\<lambda>c. c \<noteq> CHR '','') ''Foo, Version=1.0.0.0'')"
    by simp
  have run: "Reference_init sample_env sample_service_index (Some ''Foo, Version=1.0.0.0'') None [] =
     (Inr \<lparr>FullName = ''Foo, Version=1.0.0.0'', Name = ''Foo'', Version = ''1.0.0.0'',
           IsNuGetPackage = False, LatestVersion = None\<rparr>, [])"
    by (simp add: Reference_init_def getitem_def)
  show ?thesis
    using h run no_manifest_same_as_no_match [OF h, of sample_env sample_service_index "[]"]
    by simp
qed

section \<open>The registry client\<close>

lemma mapE_Inr_map: "(\<And>x. x \<in> set xs \<Longrightarrow> f x = Inr (g x)) \<Longrightarrow> mapE f xs = Inr (map g xs)"
  by (induction xs) auto

lemma mapE_Inr_length: "mapE f xs = Inr ys \<Longrightarrow> length ys = length xs"
  by (induction xs arbitrary: ys) (auto split: sum.splits)

lemma mapE_Inr_nth: "mapE f xs = Inr ys \<Longrightarrow> i < length xs \<Longrightarrow> f (xs ! i) = Inr (ys ! i)"
proof (induction xs arbitrary: ys i)
  case Nil
  then show ?case by simp
next
  case (Cons x xs)
  then show ?case by (cases i) (auto split: sum.splits)
qed

text \<open>
  Claim C7. Once the registration service is resolved to \<open>uri\<close>, looking a package
  up sends exactly one request, to \<open>uri\<close> followed by the lowercased identifier and
  \<open>/index.json\<close>, and keeps the answer. The latest versions are the \<open>upper\<close> fields of
  the pages listed under \<open>items\<close>, one per page and in their order, so as a set they
  are the upper labels found across the pages; they exist whenever every page has one.
\<close>

theorem latest_versions_url_and_labels:
  assumes "get_service_id idx ''RegistrationsBaseUrl'' = Inr uri"
  shows "NugetPackageMetadata_init E idx package_id lg =
           ((case requests_get E (py_str E uri @ lower package_id @ ''/index.json'') of
               Inl e \<Rightarrow> Inl e | Inr doc \<Rightarrow> Inr \<lparr>registration_info = doc\<rparr>),
            lg @ [py_str E uri @ lower package_id @ ''/index.json''])
       \<and> (\<forall>m pages labels.
             json_getitem (registration_info m) ''items'' = Inr (JArr pages)
             \<and> get_latest_version m = Inr labels
             \<longrightarrow> length labels = length pages
                 \<and> (\<forall>i<length pages. json_getitem (pages ! i) ''upper'' = Inr (labels ! i))
                 \<and> set labels = {u. \<exists>p\<in>set pages. json_getitem p ''upper'' = Inr u})
       \<and> (\<forall>m pages.
             json_getitem (registration_info m) ''items'' = Inr (JArr pages)
             \<and> (\<forall>p\<in>set pages. \<exists>u. json_getitem p ''upper'' = Inr u)
             \<longrightarrow> (\<exists>labels. get_latest_version m = Inr labels))"
proof -
  have init: "NugetPackageMetadata_init E idx package_id lg =
           ((case requests_get E (py_str E uri @ lower package_id @ ''/index.json'') of
               Inl e \<Rightarrow> Inl e | Inr doc \<Rightarrow> Inr \<lparr>registration_info = doc\<rparr>),
            lg @ [py_str E uri @ lower package_id @ ''/index.json''])"
    using assms by (simp add: NugetPackageMetadata_init_def Let_def)
  have labels: "length labels = length pages
                 \<and> (\<forall>i<length pages. json_getitem (pages ! i) ''upper'' = Inr (labels ! i))
                 \<and> set labels = {u. \<exists>p\<in>set pages. json_getitem p ''upper'' = Inr u}"
    if h: "json_getitem (registration_info m) ''items'' = Inr (JArr pages)
             \<and> get_latest_version m = Inr labels"
    for m pages labels
  proof -
    from h have m: "mapE (\<lambda>x. json_getitem x ''upper'') pages = Inr labels"
      by (auto simp: get_latest_version_def)
    have len: "length labels = length pages"
      using m by (rule mapE_Inr_length)
    have nth: "\<forall>i<length pages. json_getitem (pages ! i) ''upper'' = Inr (labels ! i)"
      using mapE_Inr_nth [OF m] by blast
    have "set labels = {u. \<exists>p\<in>set pages. json_getitem p ''upper'' = Inr u}"
    proof (intro set_eqI iffI)
      fix u assume "u \<in> set labels"
      then obtain i where "i < length labels" "labels ! i = u"
        by (auto simp: in_set_conv_nth)
      then show "u \<in> {u. \<exists>p\<in>set pages. json_getitem p ''upper'' = Inr u}"
        using len nth by (auto intro!: bexI [of _ "pages ! i"])
    next
      fix u assume "u \<in> {u. \<exists>p\<in>set pages. json_getitem p ''upper'' = Inr u}"
      then obtain i where "i < length pages" "json_getitem (pages ! i) ''upper'' = Inr u"
        by (auto simp: in_set_conv_nth)
      then show "u \<in> set labels"
        using len nth by (auto simp: in_set_conv_nth)
    qed
    with len nth show ?thesis by blast
  qed
  have total: "\<exists>labels. get_latest_version m = Inr labels"
    if h: "json_getitem (registration_info m) ''items'' = Inr (JArr pages)
             \<and> (\<forall>p\<in>set pages. \<exists>u. json_getitem p ''upper'' = Inr u)"
    for m pages
  proof -
    from h have "\<forall>p\<in>set pages. json_getitem p ''upper'' = Inr (projr (json_getitem p ''upper''))"
      by auto
    then have "mapE (\<lambda>x. json_getitem x ''upper'') pages
        = Inr (map (\<lambda>p. projr (json_getitem p ''upper'')) pages)"
      by (intro mapE_Inr_map) simp
    then show ?thesis
      using h by (auto simp: get_latest_version_def)
  qed
  show ?thesis
    using init labels total by blast
qed

text \<open>The lookup of \<open>Foo\<close> in the sample registry.\<close>

theorem latest_versions_url_and_labels_witness:
  "get_service_id sample_service_index ''RegistrationsBaseUrl'' = Inr (JStr ''https://reg/v3/'')
   \<and> NugetPackageMetadata_init sample_env sample_service_index ''Foo'' [] =
       (Inr \<lparr>registration_info = JObj [(''items'', JArr [JObj [(''upper'', JStr ''2.0.0'')]])]\<rparr>,
        [''https://reg/v3/foo/index.json''])
   \<and> get_latest_version
        \<lparr>registration_info = JObj [(''items'', JArr [JObj [(''upper'', JStr ''2.0.0'')]])]\<rparr> =
       Inr [JStr ''2.0.0'']
   \<and> set [JStr ''2.0.0''] =
       {u. \<exists>p\<in>set [JObj [(''upper'', JStr ''2.0.0'')]]. json_getitem p ''upper'' = Inr u}"
proof -
  let ?m = "\<lparr>registration_info = JObj [(''items'', JArr [JObj [(''upper'', JStr ''2.0.0'')]])]\<rparr>"
  have a: "get_service_id sample_service_index ''RegistrationsBaseUrl'' = Inr (JStr ''https://reg/v3/'')"
    by code_simp
  have b: "NugetPackageMetadata_init sample_env sample_service_index ''Foo'' [] =
       (Inr ?m, [''https://reg/v3/foo/index.json''])"
    by code_simp
  have c: "get_latest_version ?m = Inr [JStr ''2.0.0'']"
    by code_simp
  have d: "json_getitem (registration_info ?m) ''items'' = Inr (JArr [JObj [(''upper'', JStr ''2.0.0'')]])"
    by simp
  note t = latest_versions_url_and_labels [OF a, of sample_env "''Foo''" "[]", THEN conjunct2, THEN conjunct1, rule_format,
      of ?m "[JObj [(''upper'', JStr ''2.0.0'')]]" "[JStr ''2.0.0'']"]
  show ?thesis using a b c d t by blast
qed

section \<open>The usage matrix is the incidence table\<close>

lemma update_new_key: "map_of u k = None \<Longrightarrow> AList.update k v u = u @ [(k, v)]"
  by (induction u) (auto split: if_splits)

lemma update_last_key: "map_of u k = None \<Longrightarrow> AList.update k w (u @ [(k, v)]) = u @ [(k, w)]"
  by (induction u) (auto split: if_splits)

lemma mark_references_ok:
  assumes "pid < n" "\<forall>r row. map_of u r = Some row \<longrightarrow> length row = n"
  shows "\<exists>u'. mark_references n pid rs u = Inr u'
     \<and> (\<forall>r. map_of u' r =
           (if r \<in> set rs
            then Some ((case map_of u r of None \<Rightarrow> replicate n False | Some row \<Rightarrow> row)
                       [pid := True])
            else map_of u r))
     \<and> (distinct (map fst u) \<longrightarrow> distinct (map fst u'))"
  using assms
proof (induction rs arbitrary: u)
  case Nil
  then show ?case by simp
next
  case (Cons r rs)
  define row0 where "row0 = (case map_of u r of None \<Rightarrow> replicate n False | Some row \<Rightarrow> row)"
  define u1 where "u1 = (if map_of u r = None then AList.update r (replicate n False) u else u)"
  define u2 where "u2 = AList.update r (row0[pid := True]) u1"
  have len0: "length row0 = n"
    using Cons.prems(2) by (auto simp: row0_def split: option.splits)
  have m1: "map_of u1 r = Some row0"
    by (auto simp: u1_def row0_def update_conv')
  have m2: "map_of u2 = (map_of u)(r \<mapsto> row0[pid := True])"
    by (auto simp: u2_def u1_def update_conv')
  have step: "mark_references n pid (r # rs) u = mark_references n pid rs u2"
    using m1 len0 Cons.prems(1) by (simp add: u1_def [symmetric] u2_def)
  have len2: "\<forall>x row. map_of u2 x = Some row \<longrightarrow> length row = n"
    using Cons.prems(2) len0 by (auto simp: m2)
  have d2: "distinct (map fst u) \<longrightarrow> distinct (map fst u2)"
    by (simp add: u2_def u1_def distinct_update)
  from Cons.IH [OF Cons.prems(1) len2] obtain u' where
    r: "mark_references n pid rs u2 = Inr u'"
    and m: "\<forall>x. map_of u' x =
           (if x \<in> set rs
            then Some ((case map_of u2 x of None \<Rightarrow> replicate n False | Some row \<Rightarrow> row)
                       [pid := True])
            else map_of u2 x)"
    and d: "distinct (map fst u2) \<longrightarrow> distinct (map fst u')"
    by blast
  have "\<forall>x. map_of u' x =
           (if x \<in> set (r # rs)
            then Some ((case map_of u x of None \<Rightarrow> replicate n False | Some row \<Rightarrow> row)
                       [pid := True])
            else map_of u x)"
    using m by (auto simp: m2 row0_def)
  with r d d2 step show ?case by auto
qed


lemma mark_projects_ok:
  assumes "pid + length qs \<le> n" "\<forall>r row. map_of u r = Some row \<longrightarrow> length row = n"
  shows "\<exists>u'. mark_projects n pid qs u = Inr u'
     \<and> (\<forall>r row. map_of u' r = Some row \<longrightarrow> length row = n)
     \<and> dom (map_of u') = dom (map_of u) \<union> (\<Union>p\<in>set qs. set (declared p))
     \<and> (\<forall>r row' i. map_of u' r = Some row' \<and> i < n \<longrightarrow>
           (row' ! i \<longleftrightarrow>
              (pid \<le> i \<and> i < pid + length qs \<and> r \<in> set (declared (qs ! (i - pid))))
              \<or> (\<exists>row. map_of u r = Some row \<and> row ! i)))
     \<and> (distinct (map fst u) \<longrightarrow> distinct (map fst u'))"
  using assms
proof (induction qs arbitrary: pid u)
  case Nil
  then show ?case by auto
next
  case (Cons q qs)
  have pid: "pid < n" and rest: "Suc pid + length qs \<le> n"
    using Cons.prems(1) by simp_all
  from mark_references_ok [OF pid Cons.prems(2), of "declared q"] obtain u1 where
    r1: "mark_references n pid (declared q) u = Inr u1"
    and m1: "\<forall>r. map_of u1 r =
           (if r \<in> set (declared q)
            then Some ((case map_of u r of None \<Rightarrow> replicate n False | Some row \<Rightarrow> row)
                       [pid := True])
            else map_of u r)"
    and d1: "distinct (map fst u) \<longrightarrow> distinct (map fst u1)"
    by blast
  have len1: "\<forall>r row. map_of u1 r = Some row \<longrightarrow> length row = n"
    using Cons.prems(2) by (auto simp: m1 split: option.splits if_splits)
  have step: "mark_projects n pid (q # qs) u = mark_projects n (Suc pid) qs u1"
    using r1 by (auto simp: declared_def split: option.splits)
  have dom1: "dom (map_of u1) = dom (map_of u) \<union> set (declared q)"
    by (auto simp: m1 split: if_splits)
  have bit1: "row' ! i \<longleftrightarrow> (i = pid \<and> r \<in> set (declared q)) \<or> (\<exists>row. map_of u r = Some row \<and> row ! i)"
    if "map_of u1 r = Some row'" "i < n" for r row' i
    using that Cons.prems(2) pid
    by (auto simp: m1 nth_list_update split: option.splits if_splits)
  from Cons.IH [OF rest len1] obtain u' where
    r: "mark_projects n (Suc pid) qs u1 = Inr u'"
    and len: "\<forall>r row. map_of u' r = Some row \<longrightarrow> length row = n"
    and dom: "dom (map_of u') = dom (map_of u1) \<union> (\<Union>p\<in>set qs. set (declared p))"
    and bit: "\<forall>r row' i. map_of u' r = Some row' \<and> i < n \<longrightarrow>
           (row' ! i \<longleftrightarrow>
              (Suc pid \<le> i \<and> i < Suc pid + length qs \<and> r \<in> set (declared (qs ! (i - Suc pid))))
              \<or> (\<exists>row. map_of u1 r = Some row \<and> row ! i))"
    and d: "distinct (map fst u1) \<longrightarrow> distinct (map fst u')"
    by blast
  have bit': "row' ! i \<longleftrightarrow>
              (pid \<le> i \<and> i < pid + length (q # qs) \<and> r \<in> set (declared ((q # qs) ! (i - pid))))
              \<or> (\<exists>row. map_of u r = Some row \<and> row ! i)"
    if h: "map_of u' r = Some row'" "i < n" for r row' i
  proof -
    have a: "row' ! i \<longleftrightarrow>
              (Suc pid \<le> i \<and> i < Suc pid + length qs \<and> r \<in> set (declared (qs ! (i - Suc pid))))
              \<or> (\<exists>row. map_of u1 r = Some row \<and> row ! i)"
      using bit h by blast
    have b: "(\<exists>row. map_of u1 r = Some row \<and> row ! i)
        \<longleftrightarrow> (i = pid \<and> r \<in> set (declared q)) \<or> (\<exists>row. map_of u r = Some row \<and> row ! i)"
    proof (cases "map_of u1 r")
      case None
      then show ?thesis by (auto simp: m1 split: if_splits)
    next
      case (Some row1)
      then show ?thesis using bit1 [OF Some h(2)] by simp
    qed
    have c: "(pid \<le> i \<and> i < pid + length (q # qs) \<and> r \<in> set (declared ((q # qs) ! (i - pid))))
        \<longleftrightarrow> (i = pid \<and> r \<in> set (declared q))
          \<or> (Suc pid \<le> i \<and> i < Suc pid + length qs \<and> r \<in> set (declared (qs ! (i - Suc pid))))"
      by (cases "i = pid") (auto simp: nth_Cons')
    show ?thesis unfolding a b c by blast
  qed
  have "dom (map_of u') = dom (map_of u) \<union> (\<Union>p\<in>set (q # qs). set (declared p))"
    unfolding dom dom1 by auto
  with step r len bit' d d1 show ?case by auto
qed


lemma ReferencesMatrix_init_ok:
  "\<exists>m. ReferencesMatrix_init ps = Inr m \<and> rm_projects_info m = ps
     \<and> distinct (map fst (uses m))
     \<and> fst ` set (uses m) = (\<Union>p\<in>set ps. set (declared p))
     \<and> (\<forall>r row. map_of (uses m) r = Some row \<longrightarrow> row = map (\<lambda>p. r \<in> set (declared p)) ps)"
proof -
  from mark_projects_ok [of 0 ps "length ps" "[]"] obtain u where
    r: "mark_projects (length ps) 0 ps [] = Inr u"
    and len: "\<forall>r row. map_of u r = Some row \<longrightarrow> length row = length ps"
    and dom: "dom (map_of u) = (\<Union>p\<in>set ps. set (declared p))"
    and bit: "\<forall>r row' i. map_of u r = Some row' \<and> i < length ps \<longrightarrow>
           (row' ! i \<longleftrightarrow> r \<in> set (declared (ps ! i)))"
    and d: "distinct (map fst u)"
    by auto
  have "row = map (\<lambda>p. r \<in> set (declared p)) ps" if "map_of u r = Some row" for r row
    using that len bit by (intro nth_equalityI) auto
  moreover have "fst ` set u = (\<Union>p\<in>set ps. set (declared p))"
    using dom by (simp add: dom_map_of_conv_image_fst)
  ultimately show ?thesis
    using r d by (simp add: ReferencesMatrix_init_def)
qed

section \<open>The reference table\<close>


section \<open>A folder without project files\<close>

lemma upper_csproj: "upper ''.csproj'' = ''.CSPROJ''"
  by (simp add: upper_def upper_char_def)

lemma get_files_in_folder_empty:
  assumes "\<forall>(dirpath, dirnames, filenames)\<in>set (walk E dir). \<forall>f\<in>set filenames.
             upper (snd (splitext E (path_join E dirpath f))) \<noteq> ''.CSPROJ''"
  shows "get_files_in_folder E dir ''.csproj'' = []"
  using assms
  by (fastforce simp: get_files_in_folder_def Let_def upper_csproj filter_empty_conv)

lemma run_no_files:
  assumes "get_files_in_folder E dir ''.csproj'' = []"
  shows "run E dir =
    (case requests_get E ''https://api.nuget.org/v3/index.json'' of
       Inl e \<Rightarrow> Inl e
     | Inr j \<Rightarrow>
         Inr [Asis ''<!DOCTYPE html>'',
              Tag ''html''
                [Tag ''head''
                   [Tag ''style''
                      [Text ''table, th, td {border: 1px solid black; border-collapse: collapse; }'']],
                 Tag ''body''
                   [Tag ''div''
                      [line ''h1'' ''.NET Framework versions'',
                       Tag ''table''
                         [Tag ''tr'' [line ''th'' ''Project'',
                                      line ''th'' ''TargetFrameworkVersion'']]],
                    Tag ''div''
                      [line ''h1'' ''References'',
                       Tag ''table''
                         [Tag ''tr'' [line ''th'' ''Reference'', line ''th'' ''Version'',
                                      line ''th'' ''IsNuGetPackage'',
                                      line ''th'' ''LatestVersion'']]]]]])"
  using assms
  by (simp add: run_def ProjectsAnalyzer_init_def NugetServiceIndex_init_def
      ReferencesMatrix_init_def generate_report_def get_output_def
      get_references_table_def get_framework_table_def
      split: sum.splits)


text \<open>
  Claim C8 as stated fails: the analyzer fetches the registry index before it reads any
  project, so with no network the run over a folder without project files raises.
\<close>

theorem zero_files_counterexample:
  "get_files_in_folder offline_env ''/docs'' ''.csproj'' = []
   \<and> run offline_env ''/docs'' = Inl RequestError"
  by code_simp

text \<open>
  Claim C8, amended. For a folder with no file whose extension is \<open>.csproj\<close> in any
  case, a run whose fetch of the registry index succeeds raises nothing and gives the
  report with both tables reduced to their header rows; when the fetch fails, its
  exception ends the run.
\<close>

theorem zero_files_report:
  "(\<forall>(dirpath, dirnames, filenames)\<in>set (walk E dir). \<forall>f\<in>set filenames.
      upper (snd (splitext E (path_join E dirpath f))) \<noteq> ''.CSPROJ'') \<Longrightarrow>
   (\<forall>j. requests_get E ''https://api.nuget.org/v3/index.json'' = Inr j \<longrightarrow>
      run E dir =
        Inr [Asis ''<!DOCTYPE html>'',
             Tag ''html''
               [Tag ''head''
                  [Tag ''style''
                     [Text ''table, th, td {border: 1px solid black; border-collapse: collapse; }'']],
                Tag ''body''
                  [Tag ''div''
                     [line ''h1'' ''.NET Framework versions'',
                      Tag ''table''
                        [Tag ''tr'' [line ''th'' ''Project'',
                                     line ''th'' ''TargetFrameworkVersion'']]],
                   Tag ''div''
                     [line ''h1'' ''References'',
                      Tag ''table''
                        [Tag ''tr'' [line ''th'' ''Reference'', line ''th'' ''Version'',
                                     line ''th'' ''IsNuGetPackage'',
                                     line ''th'' ''LatestVersion'']]]]]])
   \<and> (\<forall>e. requests_get E ''https://api.nuget.org/v3/index.json'' = Inl e \<longrightarrow>
         run E dir = Inl e)"
  using run_no_files [OF get_files_in_folder_empty, of E dir] by simp

text \<open>The folder \<open>/docs\<close> of the sample world.\<close>

theorem zero_files_report_witness:
  "get_files_in_folder sample_env ''/docs'' ''.csproj'' = []
   \<and> requests_get sample_env ''https://api.nuget.org/v3/index.json'' = Inr sample_index
   \<and> run sample_env ''/docs'' =
        Inr [Asis ''<!DOCTYPE html>'',
             Tag ''html''
               [Tag ''head''
                  [Tag ''style''
                     [Text ''table, th, td {border: 1px solid black; border-collapse: collapse; }'']],
                Tag ''body''
                  [Tag ''div''
                     [line ''h1'' ''.NET Framework versions'',
                      Tag ''table''
                        [Tag ''tr'' [line ''th'' ''Project'',
                                     line ''th'' ''TargetFrameworkVersion'']]],
                   Tag ''div''
                     [line ''h1'' ''References'',
                      Tag ''table''
                        [Tag ''tr'' [line ''th'' ''Reference'', line ''th'' ''Version'',
                                     line ''th'' ''IsNuGetPackage'',
                                     line ''th'' ''LatestVersion'']]]]]]"
proof -
  have w: "walk sample_env ''/docs'' = [(''/docs'', [], [''readme.txt'', ''notes.md''])]"
    by code_simp
  have x: "upper (snd (splitext sample_env (path_join sample_env ''/docs'' ''readme.txt''))) \<noteq> ''.CSPROJ''"
    "upper (snd (splitext sample_env (path_join sample_env ''/docs'' ''notes.md''))) \<noteq> ''.CSPROJ''"
    by code_simp+
  have h: "\<forall>(dirpath, dirnames, filenames)\<in>set (walk sample_env ''/docs''). \<forall>f\<in>set filenames.
      upper (snd (splitext sample_env (path_join sample_env dirpath f))) \<noteq> ''.CSPROJ''"
    unfolding w using x by simp
  have f: "get_files_in_folder sample_env ''/docs'' ''.csproj'' = []"
    by code_simp
  have g: "requests_get sample_env ''https://api.nuget.org/v3/index.json'' = Inr sample_index"
    by code_simp
  from zero_files_report [OF h, THEN conjunct1, rule_format, OF g] f g
  show ?thesis by blast
qed

section \<open>Reading one project file\<close>

lemma read_project_info_parsed:
  assumes "read_project_nuget_packages E file = Inr pk" "xml_parse E file = Inr root"
    and "read_references E idx pk (references_names root) [] st = (res, st1)"
  shows "read_project_info E idx dir file st =
     (Inr (ProjectInfo_init E (drop (length dir) file)
             (case findall root [ns @ ''PropertyGroup'', ns @ ''TargetFrameworkVersion''] of
                [] \<Rightarrow> None | el # _ \<Rightarrow> el_text el)
             (Some (case res of Inl e \<Rightarrow> [] | Inr refs \<Rightarrow> refs)) pk),
      st1)"
proof -
  have v: "(case getitem xs 0 of Inl e \<Rightarrow> None | Inr el \<Rightarrow> el_text el)
      = (case xs of [] \<Rightarrow> None | el # _ \<Rightarrow> el_text el)" for xs
    by (cases xs) (simp_all add: getitem_def)
  show ?thesis
    using assms by (cases res) (simp_all add: read_project_info_def v)
qed

text \<open>
  Claim C2 as stated fails: a project file that does not parse raises out of
  \<open>__read_project_info\<close>, and the run over its folder ends with that exception.
\<close>

theorem parse_failure_counterexample:
  "read_project_info sample_env sample_service_index ''/bad'' ''/bad/D.csproj''
     \<lparr>all_references = [], requests = []\<rparr> =
     (Inl ParseError, \<lparr>all_references = [], requests = []\<rparr>)
   \<and> run sample_env ''/bad'' = Inl ParseError"
  by code_simp

text \<open>
  Claim C2, amended. When the manifest, if there is one, parses: a project document that
  parses is read without an exception, its version is the text of the first
  framework-version element and absent when there is none, its references are a list,
  empty when there is no reference element (and then the shared table and the log are
  untouched); a project document that does not parse raises its parse error.
\<close>

theorem read_project_info_tolerant:
  "(isfile E (dirname E file @ CHR 0x5C # ''packages.config'') \<longrightarrow>
      (\<exists>manifest. xml_parse E (dirname E file @ CHR 0x5C # ''packages.config'') = Inr manifest))
   \<Longrightarrow>
   (\<forall>root. xml_parse E file = Inr root \<longrightarrow>
      (\<exists>p st'. read_project_info E idx dir file st = (Inr p, st')
         \<and> TargetFrameworkVersion p =
             (case findall root [ns @ ''PropertyGroup'', ns @ ''TargetFrameworkVersion''] of
                [] \<Rightarrow> None | el # _ \<Rightarrow> el_text el)
         \<and> (\<exists>refs. References p = Some refs)
         \<and> (findall root [ns @ ''ItemGroup'', ns @ ''Reference''] = [] \<longrightarrow>
               References p = Some [] \<and> st' = st)))
   \<and> (\<forall>e. xml_parse E file = Inl e \<longrightarrow> read_project_info E idx dir file st = (Inl e, st))"
proof -
  assume m: "isfile E (dirname E file @ CHR 0x5C # ''packages.config'') \<longrightarrow>
      (\<exists>manifest. xml_parse E (dirname E file @ CHR 0x5C # ''packages.config'') = Inr manifest)"
  have "\<exists>pk. read_project_nuget_packages E file = Inr pk"
  proof (cases "isfile E (dirname E file @ CHR 0x5C # ''packages.config'')")
    case True
    with m obtain manifest where
      "xml_parse E (dirname E file @ CHR 0x5C # ''packages.config'') = Inr manifest"
      by blast
    with True show ?thesis
      by (simp add: read_project_nuget_packages_def)
  next
    case False
    then show ?thesis
      by (simp add: read_project_nuget_packages_def)
  qed
  then obtain pk where pk: "read_project_nuget_packages E file = Inr pk"
    by blast
  have bad: "read_project_info E idx dir file st = (Inl e, st)" if "xml_parse E file = Inl e" for e
    using that pk by (simp add: read_project_info_def)
  have good: "\<exists>p st'. read_project_info E idx dir file st = (Inr p, st')
         \<and> TargetFrameworkVersion p =
             (case findall root [ns @ ''PropertyGroup'', ns @ ''TargetFrameworkVersion''] of
                [] \<Rightarrow> None | el # _ \<Rightarrow> el_text el)
         \<and> (\<exists>refs. References p = Some refs)
         \<and> (findall root [ns @ ''ItemGroup'', ns @ ''Reference''] = [] \<longrightarrow>
               References p = Some [] \<and> st' = st)"
    if root: "xml_parse E file = Inr root" for root
  proof -
    obtain res st1 where
      rr: "read_references E idx pk (references_names root) [] st = (res, st1)"
      by (cases "read_references E idx pk (references_names root) [] st") blast
    have none: "res = Inr [] \<and> st1 = st"
      if "findall root [ns @ ''ItemGroup'', ns @ ''Reference''] = []"
    proof -
      have "references_names root = []"
        using that by (simp add: references_names_def del: findall.simps)
      with rr show ?thesis by simp
    qed
    show ?thesis
      unfolding read_project_info_parsed [OF pk root rr]
      using none by (auto simp: ProjectInfo_init_def)
  qed
  show ?thesis using bad good by blast
qed


text \<open>Project \<open>C\<close> of the sample world: no version, no reference, no manifest.\<close>

theorem read_project_info_tolerant_witness:
  "\<not> isfile sample_env (dirname sample_env ''/lib/C.csproj'' @ CHR 0x5C # ''packages.config'')
   \<and> xml_parse sample_env ''/lib/C.csproj'' = Inr (csproj None [])
   \<and> findall (csproj None []) [ns @ ''ItemGroup'', ns @ ''Reference''] = []
   \<and> read_project_info sample_env sample_service_index ''/lib'' ''/lib/C.csproj''
        \<lparr>all_references = [], requests = []\<rparr> =
       (Inr \<lparr>proj_Name = ''C'', File = ''/C.csproj'', TargetFrameworkVersion = None,
             References = Some [], ng_packages = None\<rparr>,
        \<lparr>all_references = [], requests = []\<rparr>)"
proof -
  let ?st = "\<lparr>all_references = [], requests = []\<rparr>"
  have nf: "\<not> isfile sample_env (dirname sample_env ''/lib/C.csproj'' @ CHR 0x5C # ''packages.config'')"
    by code_simp
  then have h: "isfile sample_env (dirname sample_env ''/lib/C.csproj'' @ CHR 0x5C # ''packages.config'')
      \<longrightarrow> (\<exists>manifest. xml_parse sample_env
             (dirname sample_env ''/lib/C.csproj'' @ CHR 0x5C # ''packages.config'') = Inr manifest)"
    by blast
  have parse: "xml_parse sample_env ''/lib/C.csproj'' = Inr (csproj None [])"
    by code_simp
  have norefs: "findall (csproj None []) [ns @ ''ItemGroup'', ns @ ''Reference''] = []"
    by code_simp
  have nover: "findall (csproj None []) [ns @ ''PropertyGroup'', ns @ ''TargetFrameworkVersion''] = []"
    by code_simp
  note t = read_project_info_tolerant
    [OF h, of sample_service_index "''/lib''" ?st, THEN conjunct1, rule_format, OF parse]
  have eval: "read_project_info sample_env sample_service_index ''/lib'' ''/lib/C.csproj'' ?st =
       (Inr \<lparr>proj_Name = ''C'', File = ''/C.csproj'', TargetFrameworkVersion = None,
             References = Some [], ng_packages = None\<rparr>, ?st)"
    by code_simp
  with nf parse norefs t show ?thesis by blast
qed

section \<open>One record per declared string\<close>

lemma Reference_init_key:
  "Reference_init E idx nm pk lg = (Inr r, lg') \<Longrightarrow> nm = Some (FullName r)"
  by (cases nm) (simp_all add: Reference_init_None Reference_init_Some_fields(1))

lemma Reference_init_log:
  "Reference_init E idx nm pk lg = (res, lg') \<Longrightarrow> \<exists>new. lg' = lg @ new \<and> length new \<le> 1"
  by (auto simp: Reference_init_def NugetPackageMetadata_init_def Let_def
      split: option.splits sum.splits if_splits prod.splits)

lemma table_ok_update:
  assumes "table_ok tbl" "map_of tbl k = None" "k = Some (FullName r)"
  shows "table_ok (AList.update k r tbl)"
  using assms by (auto simp: table_ok_def update_new_key map_of_eq_None_iff)

lemma table_ok_lookup:
  "table_ok tbl \<Longrightarrow> map_of tbl k = Some r \<Longrightarrow> k = Some (FullName r)"
  by (auto simp: table_ok_def dest!: map_of_SomeD)

lemma register_reference_known:
  "map_of (all_references st) nm = Some r \<Longrightarrow> register_reference E idx pk nm st = (Inr r, st)"
  by (simp add: register_reference_def)

lemma register_reference_failed:
  "register_reference E idx pk nm st = (Inl e, st') \<Longrightarrow> all_references st' = all_references st"
  by (auto simp: register_reference_def update_conv'
      split: if_splits prod.splits sum.splits option.splits)

lemma register_reference_log:
  "register_reference E idx pk nm st = (res, st')
     \<Longrightarrow> \<exists>new. requests st' = requests st @ new \<and> length new \<le> 1"
proof (cases "map_of (all_references st) nm")
  case None
  assume a: "register_reference E idx pk nm st = (res, st')"
  obtain x lg where ri: "Reference_init E idx nm pk (requests st) = (x, lg)"
    by (cases "Reference_init E idx nm pk (requests st)") blast
  from Reference_init_log [OF ri] obtain new where "lg = requests st @ new" "length new \<le> 1"
    by blast
  moreover have "requests st' = lg"
    using a None ri by (cases x) (auto simp: register_reference_def update_conv')
  ultimately show ?thesis by blast
next
  case (Some r)
  assume "register_reference E idx pk nm st = (res, st')"
  with register_reference_known [OF Some] show ?thesis by simp
qed

lemma register_reference_table:
  assumes "table_ok (all_references st)" "register_reference E idx pk nm st = (res, st')"
  shows "table_ok (all_references st')"
    and "map_of (all_references st) \<subseteq>\<^sub>m map_of (all_references st')"
    and "res = Inr r \<Longrightarrow> map_of (all_references st') nm = Some r \<and> nm = Some (FullName r)"
proof -
  show "table_ok (all_references st')"
  proof (cases "map_of (all_references st) nm")
    case None
    obtain x lg where ri: "Reference_init E idx nm pk (requests st) = (x, lg)"
      by (cases "Reference_init E idx nm pk (requests st)") blast
    show ?thesis
    proof (cases x)
      case (Inl e)
      with assms None ri show ?thesis by (auto simp: register_reference_def)
    next
      case (Inr r')
      with ri have "nm = Some (FullName r')" by (simp add: Reference_init_key)
      with assms None ri Inr show ?thesis
        by (auto simp: register_reference_def update_conv' intro: table_ok_update)
    qed
  next
    case (Some r')
    with assms register_reference_known [OF Some] show ?thesis by simp
  qed
  show "map_of (all_references st) \<subseteq>\<^sub>m map_of (all_references st')"
  proof (cases "map_of (all_references st) nm")
    case None
    obtain x lg where ri: "Reference_init E idx nm pk (requests st) = (x, lg)"
      by (cases "Reference_init E idx nm pk (requests st)") blast
    with assms None show ?thesis
      by (cases x) (auto simp: register_reference_def update_conv' map_le_def)
  next
    case (Some r')
    with assms register_reference_known [OF Some] show ?thesis by (simp add: map_le_def)
  qed
  show "map_of (all_references st') nm = Some r \<and> nm = Some (FullName r)" if "res = Inr r"
  proof (cases "map_of (all_references st) nm")
    case None
    obtain x lg where ri: "Reference_init E idx nm pk (requests st) = (x, lg)"
      by (cases "Reference_init E idx nm pk (requests st)") blast
    show ?thesis
    proof (cases x)
      case (Inl e)
      with assms None ri that show ?thesis by (auto simp: register_reference_def)
    next
      case (Inr r')
      with ri have "nm = Some (FullName r')" by (simp add: Reference_init_key)
      with assms None ri Inr that show ?thesis
        by (auto simp: register_reference_def update_conv')
    qed
  next
    case (Some r')
    with assms register_reference_known [OF Some] that table_ok_lookup [OF assms(1) Some]
    show ?thesis by simp
  qed
qed

lemma read_references_table:
  assumes "table_ok (all_references st)"
    and "\<forall>r\<in>set refs. map_of (all_references st) (Some (FullName r)) = Some r"
    and "read_references E idx pk names refs st = (res, st')"
  shows "table_ok (all_references st')
     \<and> map_of (all_references st) \<subseteq>\<^sub>m map_of (all_references st')
     \<and> (\<forall>refs'. res = Inr refs' \<longrightarrow>
           (\<forall>r\<in>set refs'. map_of (all_references st') (Some (FullName r)) = Some r))"
  using assms
proof (induction names arbitrary: refs st)
  case Nil
  then show ?case by auto
next
  case (Cons nm names)
  obtain x st1 where rg: "register_reference E idx pk nm st = (x, st1)"
    by (cases "register_reference E idx pk nm st") blast
  note t = register_reference_table [OF Cons.prems(1) rg]
  show ?case
  proof (cases x)
    case (Inl e)
    with Cons.prems(3) rg have "res = Inl e" "st' = st1" by simp_all
    with t show ?thesis by simp
  next
    case (Inr r)
    with Cons.prems(3) rg have rec: "read_references E idx pk names (refs @ [r]) st1 = (res, st')"
      by simp
    have "\<forall>q\<in>set (refs @ [r]). map_of (all_references st1) (Some (FullName q)) = Some q"
      using Cons.prems(2) t(2) t(3) [OF Inr] by (auto simp: map_le_def dom_def)
    from Cons.IH [OF t(1) this rec] t(2) show ?thesis
      by (auto intro: map_le_trans)
  qed
qed


lemma read_project_info_table:
  assumes "table_ok (all_references st)" "read_project_info E idx dir file st = (Inr p, st')"
  shows "table_ok (all_references st')
     \<and> map_of (all_references st) \<subseteq>\<^sub>m map_of (all_references st')
     \<and> (\<forall>r\<in>set (declared p). map_of (all_references st') (Some (FullName r)) = Some r)"
proof -
  from assms(2) obtain pk where pk: "read_project_nuget_packages E file = Inr pk"
    by (cases "read_project_nuget_packages E file") (simp_all add: read_project_info_def)
  from assms(2) pk obtain root where root: "xml_parse E file = Inr root"
    by (cases "xml_parse E file") (simp_all add: read_project_info_def)
  obtain res st1 where
    rr: "read_references E idx pk (references_names root) [] st = (res, st1)"
    by (cases "read_references E idx pk (references_names root) [] st") blast
  from assms(2) have p: "declared p = (case res of Inl e \<Rightarrow> [] | Inr refs \<Rightarrow> refs)"
    and st: "st' = st1"
    unfolding read_project_info_parsed [OF pk root rr]
    by (auto simp: ProjectInfo_init_def declared_def)
  from read_references_table [OF assms(1) _ rr] show ?thesis
    unfolding p st by (cases res) auto
qed

lemma read_projects_table:
  assumes "table_ok (all_references st)" "read_projects E idx dir files st = (Inr ps, st')"
  shows "table_ok (all_references st')
     \<and> map_of (all_references st) \<subseteq>\<^sub>m map_of (all_references st')
     \<and> (\<forall>p\<in>set ps. \<forall>r\<in>set (declared p).
           map_of (all_references st') (Some (FullName r)) = Some r)"
  using assms
proof (induction files arbitrary: st ps)
  case Nil
  then show ?case by auto
next
  case (Cons f files)
  from Cons.prems(2) obtain p st1 where
    one: "read_project_info E idx dir f st = (Inr p, st1)"
    by (cases "read_project_info E idx dir f st") (auto split: sum.splits)
  from Cons.prems(2) one obtain qs where
    more: "read_projects E idx dir files st1 = (Inr qs, st')" and ps: "ps = p # qs"
    by (cases "read_projects E idx dir files st1") (auto split: sum.splits)
  note a = read_project_info_table [OF Cons.prems(1) one]
  note b = Cons.IH [OF a [THEN conjunct1] more]
  have "\<forall>r\<in>set (declared p). map_of (all_references st') (Some (FullName r)) = Some r"
    using a b by (auto simp: map_le_def dom_def)
  with a b show ?case
    unfolding ps by (auto intro: map_le_trans)
qed

text \<open>
  Counting requests against records: a mention that returns a record sends a request
  only when it stores a new record, and a mention that raises sends at most one.
\<close>

lemma register_reference_count:
  assumes "register_reference E idx pk nm st = (res, st')"
  shows "length (requests st') + length (all_references st)
           \<le> length (requests st) + length (all_references st') + (if isl res then 1 else 0)"
proof (cases "map_of (all_references st) nm")
  case None
  obtain x lg where ri: "Reference_init E idx nm pk (requests st) = (x, lg)"
    by (cases "Reference_init E idx nm pk (requests st)") blast
  from Reference_init_log [OF ri] obtain new where lg: "lg = requests st @ new" "length new \<le> 1"
    by blast
  show ?thesis
  proof (cases x)
    case (Inl e)
    with assms None ri lg show ?thesis
      by (auto simp: register_reference_def)
  next
    case (Inr r)
    with assms None ri have "res = Inr r"
      and "st' = st\<lparr>all_references := AList.update nm r (all_references st), requests := lg\<rparr>"
      by (auto simp: register_reference_def update_conv')
    with None lg show ?thesis
      by (simp add: update_new_key)
  qed
next
  case (Some r)
  with assms register_reference_known [OF Some] show ?thesis by simp
qed

lemma read_references_count:
  assumes "read_references E idx pk names refs st = (res, st')"
  shows "length (requests st') + length (all_references st)
           \<le> length (requests st) + length (all_references st') + (if isl res then 1 else 0)"
  using assms
proof (induction names arbitrary: refs st)
  case Nil
  then show ?case by auto
next
  case (Cons nm names)
  obtain x st1 where rg: "register_reference E idx pk nm st = (x, st1)"
    by (cases "register_reference E idx pk nm st") blast
  note c = register_reference_count [OF rg]
  show ?case
  proof (cases x)
    case (Inl e)
    with Cons.prems rg have "res = Inl e" "st' = st1" by simp_all
    with c Inl show ?thesis by simp
  next
    case (Inr r)
    with Cons.prems rg have "read_references E idx pk names (refs @ [r]) st1 = (res, st')"
      by simp
    from Cons.IH [OF this] c Inr show ?thesis by simp
  qed
qed

lemma read_project_info_count:
  assumes "read_project_info E idx dir file st = (Inr p, st')"
  shows "length (requests st') + length (all_references st)
           \<le> length (requests st) + length (all_references st') + 1"
proof -
  from assms obtain pk where pk: "read_project_nuget_packages E file = Inr pk"
    by (cases "read_project_nuget_packages E file") (simp_all add: read_project_info_def)
  from assms pk obtain root where root: "xml_parse E file = Inr root"
    by (cases "xml_parse E file") (simp_all add: read_project_info_def)
  obtain res st1 where
    rr: "read_references E idx pk (references_names root) [] st = (res, st1)"
    by (cases "read_references E idx pk (references_names root) [] st") blast
  from assms have "st' = st1"
    unfolding read_project_info_parsed [OF pk root rr] by simp
  with read_references_count [OF rr] show ?thesis
    by (simp split: if_splits)
qed

lemma read_projects_count:
  assumes "read_projects E idx dir files st = (Inr ps, st')"
  shows "length (requests st') + length (all_references st)
           \<le> length (requests st) + length (all_references st') + length ps"
  using assms
proof (induction files arbitrary: st ps)
  case Nil
  then show ?case by auto
next
  case (Cons f files)
  from Cons.prems obtain p st1 where
    one: "read_project_info E idx dir f st = (Inr p, st1)"
    by (cases "read_project_info E idx dir f st") (auto split: sum.splits)
  from Cons.prems one obtain qs where
    more: "read_projects E idx dir files st1 = (Inr qs, st')" and ps: "ps = p # qs"
    by (cases "read_projects E idx dir files st1") (auto split: sum.splits)
  from read_project_info_count [OF one] Cons.IH [OF more] show ?case
    unfolding ps by simp
qed

lemma run_request_count:
  assumes "ProjectsAnalyzer_init E dir = Inr a"
  shows "length (pa_requests a)
           \<le> 1 + length (pa_all_references a) + length (pa_projects_info a)"
proof -
  from assms obtain idx lg ps st where
    ix: "NugetServiceIndex_init E [] = (Inr idx, lg)"
    and rp: "read_projects E idx dir (get_files_in_folder E dir ''.csproj'')
           \<lparr>all_references = [], requests = lg\<rparr> = (Inr ps, st)"
    and a: "pa_all_references a = all_references st" "pa_projects_info a = ps"
      "pa_requests a = requests st"
    by (auto simp: ProjectsAnalyzer_init_def Let_def split: prod.splits sum.splits)
  from ix have "length lg = 1"
    by (auto simp: NugetServiceIndex_init_def)
  with read_projects_count [OF rp] show ?thesis
    unfolding a by simp
qed

text \<open>
  What one mention does to the table, case by case, and what a completed loop leaves.
\<close>

lemma run_parts:
  assumes "ProjectsAnalyzer_init E dir = Inr a"
  shows "\<exists>lg st. NugetServiceIndex_init E [] = (Inr (nuget_service_index a), lg)
     \<and> read_projects E (nuget_service_index a) dir (get_files_in_folder E dir ''.csproj'')
           \<lparr>all_references = [], requests = lg\<rparr> = (Inr (pa_projects_info a), st)
     \<and> pa_all_references a = all_references st \<and> pa_requests a = requests st
     \<and> ReferencesMatrix_init (pa_projects_info a) = Inr (pa_reference_matrix a)"
  using assms
  by (auto simp: ProjectsAnalyzer_init_def Let_def split: prod.splits sum.splits)

lemma run_table:
  assumes "ProjectsAnalyzer_init E dir = Inr a"
  shows "table_ok (pa_all_references a)"
    and "\<forall>p\<in>set (pa_projects_info a). \<forall>r\<in>set (declared p).
           map_of (pa_all_references a) (Some (FullName r)) = Some r"
proof -
  from run_parts [OF assms] obtain lg st where
    rp: "read_projects E (nuget_service_index a) dir (get_files_in_folder E dir ''.csproj'')
           \<lparr>all_references = [], requests = lg\<rparr> = (Inr (pa_projects_info a), st)"
    and a: "pa_all_references a = all_references st"
    by blast
  have "table_ok (all_references \<lparr>all_references = [], requests = lg\<rparr>)"
    by (simp add: table_ok_def)
  from read_projects_table [OF this rp]
  show "table_ok (pa_all_references a)"
    and "\<forall>p\<in>set (pa_projects_info a). \<forall>r\<in>set (declared p).
           map_of (pa_all_references a) (Some (FullName r)) = Some r"
    unfolding a by blast+
qed

lemma register_reference_new:
  assumes "map_of (all_references st) nm = None"
    and "Reference_init E idx nm pk (requests st) = (Inr r, lg)"
  shows "register_reference E idx pk nm st =
           (Inr r, st\<lparr>all_references := all_references st @ [(nm, r)], requests := lg\<rparr>)"
proof -
  have "register_reference E idx pk nm st =
          (Inr r, st\<lparr>all_references := AList.update nm r (all_references st), requests := lg\<rparr>)"
    using assms by (simp add: register_reference_def update_conv')
  then show ?thesis
    using assms(1) by (simp add: update_new_key)
qed

lemma register_reference_raises:
  assumes "map_of (all_references st) nm = None"
    and "Reference_init E idx nm pk (requests st) = (Inl e, lg)"
  shows "register_reference E idx pk nm st = (Inl e, st\<lparr>requests := lg\<rparr>)"
  using assms by (simp add: register_reference_def)

lemma register_reference_cases:
  assumes "register_reference E idx pk nm st = (res, st')"
  obtains r where "map_of (all_references st) nm = Some r" "res = Inr r" "st' = st"
  | r lg where "map_of (all_references st) nm = None"
      "Reference_init E idx nm pk (requests st) = (Inr r, lg)" "res = Inr r"
      "st' = st\<lparr>all_references := all_references st @ [(nm, r)], requests := lg\<rparr>"
  | e lg where "map_of (all_references st) nm = None"
      "Reference_init E idx nm pk (requests st) = (Inl e, lg)" "res = Inl e"
      "st' = st\<lparr>requests := lg\<rparr>"
proof (cases "map_of (all_references st) nm")
  case None
  obtain x lg where ri: "Reference_init E idx nm pk (requests st) = (x, lg)"
    by (cases "Reference_init E idx nm pk (requests st)") blast
  show ?thesis
  proof (cases x)
    case (Inl e)
    with ri have ri': "Reference_init E idx nm pk (requests st) = (Inl e, lg)" by simp
    from register_reference_raises [OF None ri'] assms
    have "res = Inl e" "st' = st\<lparr>requests := lg\<rparr>" by simp_all
    with None ri' show ?thesis by (rule that(3))
  next
    case (Inr r)
    with ri have ri': "Reference_init E idx nm pk (requests st) = (Inr r, lg)" by simp
    from register_reference_new [OF None ri'] assms
    have "res = Inr r"
      "st' = st\<lparr>all_references := all_references st @ [(nm, r)], requests := lg\<rparr>"
      by simp_all
    with None ri' show ?thesis by (rule that(2))
  qed
next
  case (Some r)
  from register_reference_known [OF Some] assms have "res = Inr r" "st' = st"
    by simp_all
  with Some show ?thesis by (rule that(1))
qed

lemma register_reference_mono:
  assumes "register_reference E idx pk nm st = (res, st')"
  shows "map_of (all_references st) \<subseteq>\<^sub>m map_of (all_references st')"
  using assms by (cases rule: register_reference_cases) (auto simp: map_le_def map_add_def dom_def)

lemma register_reference_stored:
  assumes "register_reference E idx pk nm st = (Inr r, st')"
  shows "map_of (all_references st') nm = Some r"
  using assms by (cases rule: register_reference_cases) (auto simp: map_add_def)

lemma register_reference_built:
  assumes "table_built E idx (all_references st)"
    and "register_reference E idx pk nm st = (res, st')"
  shows "table_built E idx (all_references st')"
  using assms(2,1)
  by (cases rule: register_reference_cases) (auto simp: table_built_def)

lemma read_references_mono:
  assumes "read_references E idx pk names refs st = (res, st')"
  shows "map_of (all_references st) \<subseteq>\<^sub>m map_of (all_references st')"
  using assms
proof (induction names arbitrary: refs st)
  case Nil
  then show ?case by simp
next
  case (Cons nm names)
  obtain x st1 where rg: "register_reference E idx pk nm st = (x, st1)"
    by (cases "register_reference E idx pk nm st") blast
  show ?case
  proof (cases x)
    case (Inl e)
    with Cons.prems rg have "st' = st1" by simp
    with register_reference_mono [OF rg] show ?thesis by simp
  next
    case (Inr r)
    with Cons.prems rg have "read_references E idx pk names (refs @ [r]) st1 = (res, st')"
      by simp
    from Cons.IH [OF this] register_reference_mono [OF rg] show ?thesis
      by (rule map_le_trans [rotated])
  qed
qed

lemma read_references_built:
  assumes "table_built E idx (all_references st)"
    and "read_references E idx pk names refs st = (res, st')"
  shows "table_built E idx (all_references st')"
  using assms
proof (induction names arbitrary: refs st)
  case Nil
  then show ?case by simp
next
  case (Cons nm names)
  obtain x st1 where rg: "register_reference E idx pk nm st = (x, st1)"
    by (cases "register_reference E idx pk nm st") blast
  note b = register_reference_built [OF Cons.prems(1) rg]
  show ?case
  proof (cases x)
    case (Inl e)
    with Cons.prems rg have "st' = st1" by simp
    with b show ?thesis by simp
  next
    case (Inr r)
    with Cons.prems rg have "read_references E idx pk names (refs @ [r]) st1 = (res, st')"
      by simp
    from Cons.IH [OF b this] show ?thesis .
  qed
qed

lemma read_references_complete:
  assumes "read_references E idx pk names refs st = (Inr refs', st')"
  shows "\<exists>new. refs' = refs @ new \<and> map (map_of (all_references st')) names = map Some new"
  using assms
proof (induction names arbitrary: refs st)
  case Nil
  then show ?case by simp
next
  case (Cons nm names)
  obtain x st1 where rg: "register_reference E idx pk nm st = (x, st1)"
    by (cases "register_reference E idx pk nm st") blast
  from Cons.prems rg obtain r where x: "x = Inr r"
    and rec: "read_references E idx pk names (refs @ [r]) st1 = (Inr refs', st')"
    by (cases x) auto
  from Cons.IH [OF rec] obtain new where
    new: "refs' = (refs @ [r]) @ new" "map (map_of (all_references st')) names = map Some new"
    by blast
  have "map_of (all_references st1) nm = Some r"
    using rg x by (simp add: register_reference_stored)
  with read_references_mono [OF rec] have "map_of (all_references st') nm = Some r"
    by (auto simp: map_le_def dom_def)
  with new have "refs' = refs @ (r # new)
      \<and> map (map_of (all_references st')) (nm # names) = map Some (r # new)"
    by simp
  then show ?case by blast
qed

lemma read_project_info_built:
  assumes "table_built E idx (all_references st)"
    and "read_project_info E idx dir file st = (Inr p, st')"
  shows "table_built E idx (all_references st')"
proof -
  from assms(2) obtain pk where pk: "read_project_nuget_packages E file = Inr pk"
    by (cases "read_project_nuget_packages E file") (simp_all add: read_project_info_def)
  from assms(2) pk obtain root where root: "xml_parse E file = Inr root"
    by (cases "xml_parse E file") (simp_all add: read_project_info_def)
  obtain res st1 where
    rr: "read_references E idx pk (references_names root) [] st = (res, st1)"
    by (cases "read_references E idx pk (references_names root) [] st") blast
  from assms(2) have "st' = st1"
    unfolding read_project_info_parsed [OF pk root rr] by simp
  with read_references_built [OF assms(1) rr] show ?thesis by simp
qed

lemma read_projects_built:
  assumes "table_built E idx (all_references st)"
    and "read_projects E idx dir files st = (Inr ps, st')"
  shows "table_built E idx (all_references st')"
  using assms
proof (induction files arbitrary: st ps)
  case Nil
  then show ?case by simp
next
  case (Cons f files)
  from Cons.prems(2) obtain p st1 where
    one: "read_project_info E idx dir f st = (Inr p, st1)"
    by (cases "read_project_info E idx dir f st") (auto split: sum.splits)
  from Cons.prems(2) one obtain qs where
    more: "read_projects E idx dir files st1 = (Inr qs, st')"
    by (cases "read_projects E idx dir files st1") (auto split: sum.splits)
  from Cons.IH [OF read_project_info_built [OF Cons.prems(1) one] more] show ?case .
qed

lemma run_built:
  assumes "ProjectsAnalyzer_init E dir = Inr a"
  shows "table_built E (nuget_service_index a) (pa_all_references a)"
proof -
  from run_parts [OF assms] obtain lg st where
    rp: "read_projects E (nuget_service_index a) dir (get_files_in_folder E dir ''.csproj'')
           \<lparr>all_references = [], requests = lg\<rparr> = (Inr (pa_projects_info a), st)"
    and a: "pa_all_references a = all_references st"
    by blast
  have "table_built E (nuget_service_index a)
          (all_references \<lparr>all_references = [], requests = lg\<rparr>)"
    by (simp add: table_built_def)
  from read_projects_built [OF this rp] show ?thesis
    unfolding a .
qed


lemma read_project_info_complete:
  assumes "read_project_info E idx dir file st = (Inr p, st')" "xml_parse E file = Inr root"
    and "declared p \<noteq> []"
  shows "map (map_of (all_references st')) (references_names root) = map Some (declared p)"
proof -
  from assms(1) obtain pk where pk: "read_project_nuget_packages E file = Inr pk"
    by (cases "read_project_nuget_packages E file") (simp_all add: read_project_info_def)
  obtain res st1 where
    rr: "read_references E idx pk (references_names root) [] st = (res, st1)"
    by (cases "read_references E idx pk (references_names root) [] st") blast
  from assms(1) have p: "declared p = (case res of Inl e \<Rightarrow> [] | Inr refs \<Rightarrow> refs)"
    and st: "st' = st1"
    unfolding read_project_info_parsed [OF pk assms(2) rr]
    by (auto simp: ProjectInfo_init_def declared_def)
  from p assms(3) have "res = Inr (declared p)"
    by (cases res) auto
  with rr st have "read_references E idx pk (references_names root) [] st = (Inr (declared p), st')"
    by simp
  from read_references_complete [OF this] show ?thesis by simp
qed

text \<open>
  Claim C1 as stated fails twice over. In \<open>/src\<close> the strings \<open>Foo\<close> and
  \<open>Foo, Version=1.0.0.0\<close> share the bare name \<open>Foo\<close> and get two records. In \<open>/dup\<close>
  the lookup of \<open>Bar\<close> fails in project \<open>P\<close>, nothing is stored, and project \<open>Q\<close>
  sends the same request again.
\<close>

theorem shared_record_counterexample:
  "map_sum id pa_all_references (ProjectsAnalyzer_init sample_env ''/src'') =
     Inr [(Some ''Foo'', sample_foo), (Some ''Foo, Version=1.0.0.0'', sample_foo_1)]
   \<and> Name sample_foo = ''Foo'' \<and> Name sample_foo_1 = ''Foo'' \<and> sample_foo \<noteq> sample_foo_1
   \<and> map_sum id pa_projects_info (ProjectsAnalyzer_init sample_env ''/dup'') =
     Inr [\<lparr>proj_Name = ''P'', File = ''/P/P.csproj'', TargetFrameworkVersion = None,
           References = Some [],
           ng_packages = Some [\<lparr>pkg_Id = Some ''Bar'', pkg_Version = Some ''3.1.0'',
                                TargetFramework = None\<rparr>]\<rparr>,
          \<lparr>proj_Name = ''Q'', File = ''/Q/Q.csproj'', TargetFrameworkVersion = None,
           References = Some [],
           ng_packages = Some [\<lparr>pkg_Id = Some ''Bar'', pkg_Version = Some ''3.1.0'',
                                TargetFramework = None\<rparr>]\<rparr>]
   \<and> map_sum id pa_requests (ProjectsAnalyzer_init sample_env ''/dup'') =
     Inr [''https://api.nuget.org/v3/index.json'',
          ''https://reg/v3/bar/index.json'', ''https://reg/v3/bar/index.json'']"
  by code_simp

text \<open>
  Claim C1, amended. After a run the shared table holds exactly one record for each
  declared reference string it knows: the keys are distinct, the key is the whole
  \<open>Include\<close> value, which is the record's full name and not its bare name, and the
  record is what the constructor returned for that string. Every reference of every
  project is the record stored under its string. A mention of a string that has no record
  yet and whose construction succeeds stores the new record under the string, at the end
  of the table, and returns it; a mention of a string that already has a record returns
  that record and changes neither the table nor the log of requests; a mention whose
  construction raises stores nothing. A loop that completes returns, in order, the records
  now stored under the strings it went through, and these are the references of the
  project. One mention sends at most one request; in all, the run sends at most the
  request for the index, one request per stored record and one per project.
\<close>

theorem one_record_per_declared_string:
  "ProjectsAnalyzer_init E dir = Inr a \<Longrightarrow>
     distinct (map fst (pa_all_references a))
   \<and> (\<forall>kr\<in>set (pa_all_references a). fst kr = Some (FullName (snd kr)))
   \<and> (\<forall>kr\<in>set (pa_all_references a). \<exists>packages lg lg'.
         Reference_init E (nuget_service_index a) (fst kr) packages lg = (Inr (snd kr), lg'))
   \<and> (\<forall>p\<in>set (pa_projects_info a). \<forall>r\<in>set (declared p).
         map_of (pa_all_references a) (Some (FullName r)) = Some r)
   \<and> (\<forall>idx pk nm st r. map_of (all_references st) nm = Some r \<longrightarrow>
         register_reference E idx pk nm st = (Inr r, st))
   \<and> (\<forall>idx pk nm st r lg.
         map_of (all_references st) nm = None
         \<and> Reference_init E idx nm pk (requests st) = (Inr r, lg) \<longrightarrow>
         register_reference E idx pk nm st =
           (Inr r, st\<lparr>all_references := all_references st @ [(nm, r)], requests := lg\<rparr>))
   \<and> (\<forall>idx pk nm st e lg.
         map_of (all_references st) nm = None
         \<and> Reference_init E idx nm pk (requests st) = (Inl e, lg) \<longrightarrow>
         register_reference E idx pk nm st = (Inl e, st\<lparr>requests := lg\<rparr>))
   \<and> (\<forall>idx pk names refs st refs' st'.
         read_references E idx pk names refs st = (Inr refs', st') \<longrightarrow>
         (\<exists>new. refs' = refs @ new
            \<and> map (map_of (all_references st')) names = map Some new))
   \<and> (\<forall>idx file st p st' root.
         read_project_info E idx dir file st = (Inr p, st') \<and> xml_parse E file = Inr root
         \<and> declared p \<noteq> [] \<longrightarrow>
         map (map_of (all_references st')) (references_names root) = map Some (declared p))
   \<and> (\<forall>idx pk nm st e st'. register_reference E idx pk nm st = (Inl e, st') \<longrightarrow>
         all_references st' = all_references st)
   \<and> (\<forall>idx pk nm st res st'. register_reference E idx pk nm st = (res, st') \<longrightarrow>
         (\<exists>new. requests st' = requests st @ new \<and> length new \<le> 1))
   \<and> length (pa_requests a)
         \<le> 1 + length (pa_all_references a) + length (pa_projects_info a)"
proof -
  assume run: "ProjectsAnalyzer_init E dir = Inr a"
  have "distinct (map fst (pa_all_references a))"
    and "\<forall>kr\<in>set (pa_all_references a). fst kr = Some (FullName (snd kr))"
    using run_table(1) [OF run] by (simp_all add: table_ok_def)
  moreover have "\<forall>kr\<in>set (pa_all_references a). \<exists>packages lg lg'.
         Reference_init E (nuget_service_index a) (fst kr) packages lg = (Inr (snd kr), lg')"
    using run_built [OF run] by (simp add: table_built_def)
  moreover have "\<forall>p\<in>set (pa_projects_info a). \<forall>r\<in>set (declared p).
         map_of (pa_all_references a) (Some (FullName r)) = Some r"
    using run by (rule run_table(2))
  moreover have "\<forall>idx pk nm st r. map_of (all_references st) nm = Some r \<longrightarrow>
         register_reference E idx pk nm st = (Inr r, st)"
    by (simp add: register_reference_known)
  moreover have "\<forall>idx pk nm st r lg.
         map_of (all_references st) nm = None
         \<and> Reference_init E idx nm pk (requests st) = (Inr r, lg) \<longrightarrow>
         register_reference E idx pk nm st =
           (Inr r, st\<lparr>all_references := all_references st @ [(nm, r)], requests := lg\<rparr>)"
    by (intro allI impI, elim conjE) (rule register_reference_new)
  moreover have "\<forall>idx pk nm st e lg.
         map_of (all_references st) nm = None
         \<and> Reference_init E idx nm pk (requests st) = (Inl e, lg) \<longrightarrow>
         register_reference E idx pk nm st = (Inl e, st\<lparr>requests := lg\<rparr>)"
    by (intro allI impI, elim conjE) (rule register_reference_raises)
  moreover have "\<forall>idx pk names refs st refs' st'.
         read_references E idx pk names refs st = (Inr refs', st') \<longrightarrow>
         (\<exists>new. refs' = refs @ new
            \<and> map (map_of (all_references st')) names = map Some new)"
    by (intro allI impI) (rule read_references_complete)
  moreover have "\<forall>idx file st p st' root.
         read_project_info E idx dir file st = (Inr p, st') \<and> xml_parse E file = Inr root
         \<and> declared p \<noteq> [] \<longrightarrow>
         map (map_of (all_references st')) (references_names root) = map Some (declared p)"
    by (intro allI impI, elim conjE) (rule read_project_info_complete)
  moreover have "\<forall>idx pk nm st e st'. register_reference E idx pk nm st = (Inl e, st') \<longrightarrow>
         all_references st' = all_references st"
    by (intro allI impI) (rule register_reference_failed)
  moreover have "\<forall>idx pk nm st res st'. register_reference E idx pk nm st = (res, st') \<longrightarrow>
         (\<exists>new. requests st' = requests st @ new \<and> length new \<le> 1)"
    by (intro allI impI) (rule register_reference_log)
  moreover have "length (pa_requests a)
         \<le> 1 + length (pa_all_references a) + length (pa_projects_info a)"
    using run by (rule run_request_count)
  ultimately show ?thesis
    by (intro conjI)
qed

text \<open>The run over \<open>/src\<close>; a first and a second mention of \<open>Foo\<close>.\<close>

theorem one_record_per_declared_string_witness:
  "map_sum id pa_all_references (ProjectsAnalyzer_init sample_env ''/src'') =
     Inr [(Some ''Foo'', sample_foo), (Some ''Foo, Version=1.0.0.0'', sample_foo_1)]
   \<and> distinct (map fst [(Some ''Foo'', sample_foo),
                         (Some ''Foo, Version=1.0.0.0'', sample_foo_1)])
   \<and> map_sum id pa_projects_info (ProjectsAnalyzer_init sample_env ''/src'') =
     Inr [sample_project_A, sample_project_B]
   \<and> map_sum id pa_requests (ProjectsAnalyzer_init sample_env ''/src'') =
     Inr [''https://api.nuget.org/v3/index.json'', ''https://reg/v3/foo/index.json'']
   \<and> Reference_init sample_env sample_service_index (Some ''Foo'') None [] =
       (Inr sample_foo, [])
   \<and> register_reference sample_env sample_service_index None (Some ''Foo'')
        \<lparr>all_references = [], requests = []\<rparr> =
       (Inr sample_foo, \<lparr>all_references = [(Some ''Foo'', sample_foo)], requests = []\<rparr>)
   \<and> register_reference sample_env sample_service_index None (Some ''Foo'')
        \<lparr>all_references = [(Some ''Foo'', sample_foo)], requests = []\<rparr> =
       (Inr sample_foo, \<lparr>all_references = [(Some ''Foo'', sample_foo)], requests = []\<rparr>)"
proof -
  have "\<not> isl (ProjectsAnalyzer_init sample_env ''/src'')"
    by code_simp
  then obtain a where run: "ProjectsAnalyzer_init sample_env ''/src'' = Inr a"
    by (cases "ProjectsAnalyzer_init sample_env ''/src''") auto
  have tbl: "map_sum id pa_all_references (ProjectsAnalyzer_init sample_env ''/src'') =
     Inr [(Some ''Foo'', sample_foo), (Some ''Foo, Version=1.0.0.0'', sample_foo_1)]"
    by code_simp
  have ps: "map_sum id pa_projects_info (ProjectsAnalyzer_init sample_env ''/src'') =
     Inr [sample_project_A, sample_project_B]"
    by code_simp
  have rq: "map_sum id pa_requests (ProjectsAnalyzer_init sample_env ''/src'') =
     Inr [''https://api.nuget.org/v3/index.json'', ''https://reg/v3/foo/index.json'']"
    by code_simp
  note t = one_record_per_declared_string [OF run]
  have d: "distinct (map fst [(Some ''Foo'', sample_foo),
                         (Some ''Foo, Version=1.0.0.0'', sample_foo_1)])"
    using t [THEN conjunct1] tbl run by simp
  from t have reuse_rule: "\<forall>idx pk nm st r. map_of (all_references st) nm = Some r \<longrightarrow>
         register_reference sample_env idx pk nm st = (Inr r, st)"
    by (elim conjE)
  from t have create_rule: "\<forall>idx pk nm st r lg.
         map_of (all_references st) nm = None
         \<and> Reference_init sample_env idx nm pk (requests st) = (Inr r, lg) \<longrightarrow>
         register_reference sample_env idx pk nm st =
           (Inr r, st\<lparr>all_references := all_references st @ [(nm, r)], requests := lg\<rparr>)"
    by (elim conjE)
  have built: "Reference_init sample_env sample_service_index (Some ''Foo'') None [] =
       (Inr sample_foo, [])"
    by code_simp
  have create: "register_reference sample_env sample_service_index None (Some ''Foo'')
        \<lparr>all_references = [], requests = []\<rparr> =
       (Inr sample_foo, \<lparr>all_references = [(Some ''Foo'', sample_foo)], requests = []\<rparr>)"
    using create_rule [rule_format, where st = "\<lparr>all_references = [], requests = []\<rparr>"
        and nm = "Some ''Foo''" and idx = sample_service_index and pk = None
        and r = sample_foo and lg = "[]"] built
    by simp
  have reuse: "register_reference sample_env sample_service_index None (Some ''Foo'')
        \<lparr>all_references = [(Some ''Foo'', sample_foo)], requests = []\<rparr> =
       (Inr sample_foo, \<lparr>all_references = [(Some ''Foo'', sample_foo)], requests = []\<rparr>)"
    using reuse_rule [rule_format, where st = "\<lparr>all_references = [(Some ''Foo'', sample_foo)],
        requests = []\<rparr>" and nm = "Some ''Foo''" and r = sample_foo
        and idx = sample_service_index and pk = None] by simp
  from tbl d ps rq built create reuse show ?thesis by blast
qed

section \<open>The usage matrix of a run\<close>

lemma run_matrix_keys:
  assumes "ProjectsAnalyzer_init E dir = Inr a"
  shows "fst ` set (uses (pa_reference_matrix a)) = (\<Union>p\<in>set (pa_projects_info a). set (declared p))"
    and "fst ` set (uses (pa_reference_matrix a)) \<subseteq> snd ` set (pa_all_references a)"
    and "\<forall>r\<in>fst ` set (uses (pa_reference_matrix a)).
           map_of (pa_all_references a) (Some (FullName r)) = Some r"
proof -
  from run_parts [OF assms] have
    m: "ReferencesMatrix_init (pa_projects_info a) = Inr (pa_reference_matrix a)"
    by blast
  with ReferencesMatrix_init_ok [of "pa_projects_info a"]
  show keys: "fst ` set (uses (pa_reference_matrix a))
      = (\<Union>p\<in>set (pa_projects_info a). set (declared p))"
    by auto
  show tbl: "\<forall>r\<in>fst ` set (uses (pa_reference_matrix a)).
           map_of (pa_all_references a) (Some (FullName r)) = Some r"
    unfolding keys using run_table(2) [OF assms] by blast
  show "fst ` set (uses (pa_reference_matrix a)) \<subseteq> snd ` set (pa_all_references a)"
  proof
    fix r assume "r \<in> fst ` set (uses (pa_reference_matrix a))"
    with tbl have "map_of (pa_all_references a) (Some (FullName r)) = Some r"
      by blast
    then have "(Some (FullName r), r) \<in> set (pa_all_references a)"
      by (rule map_of_SomeD)
    then show "r \<in> snd ` set (pa_all_references a)"
      by force
  qed
qed

text \<open>
  Claim C5 as stated fails. Project \<open>R\<close> of \<open>/part\<close> declares \<open>Foo\<close>, then a reference
  without an \<open>Include\<close> attribute, on which the loop raises: \<open>Foo\<close> is a record of the
  shared table, the project's reference list is empty, and the matrix has no vector for
  \<open>Foo\<close>.
\<close>

theorem known_record_counterexample:
  "xml_parse sample_env ''/part/R.csproj'' = Inr (csproj None [Some ''Foo'', None, Some ''Baz''])
   \<and> references_names (csproj None [Some ''Foo'', None, Some ''Baz'']) =
       [Some ''Foo'', None, Some ''Baz'']
   \<and> map_sum id pa_all_references (ProjectsAnalyzer_init sample_env ''/part'') =
       Inr [(Some ''Foo'', sample_foo)]
   \<and> map_sum id (map declared \<circ> pa_projects_info) (ProjectsAnalyzer_init sample_env ''/part'') =
       Inr [[]]
   \<and> map_sum id (uses \<circ> pa_reference_matrix) (ProjectsAnalyzer_init sample_env ''/part'') =
       Inr []"
  by code_simp

text \<open>
  Claim C5, amended. For every list of projects the matrix is built without an exception;
  its keys are, once each, the references found in the reference list of at least one
  project; the vector of each has one entry per project, and entry \<open>i\<close> is true exactly
  when the reference list of project \<open>i\<close> holds the reference. A reference met for the
  first time starts from the all-false vector. In a run the matrix is built from the list
  of projects that reading all the project files returned; its keys are records of the
  shared table, and they are the references of the projects' lists, not every record of
  the table.
\<close>

theorem usage_matrix:
  "\<exists>m. ReferencesMatrix_init ps = Inr m
     \<and> distinct (map fst (uses m))
     \<and> fst ` set (uses m) = (\<Union>p\<in>set ps. set (declared p))
     \<and> (\<forall>(r, row)\<in>set (uses m).
           length row = length ps
           \<and> (\<forall>i<length ps. row ! i \<longleftrightarrow> r \<in> set (declared (ps ! i))))
     \<and> (\<forall>u r pid. map_of u r = None \<and> pid < length ps \<longrightarrow>
           mark_references (length ps) pid [r] u =
             Inr (u @ [(r, (replicate (length ps) False)[pid := True])]))
     \<and> (\<forall>E dir a. ProjectsAnalyzer_init E dir = Inr a \<longrightarrow>
           ReferencesMatrix_init (pa_projects_info a) = Inr (pa_reference_matrix a)
         \<and> (\<exists>lg st. NugetServiceIndex_init E [] = (Inr (nuget_service_index a), lg)
              \<and> read_projects E (nuget_service_index a) dir
                   (get_files_in_folder E dir ''.csproj'')
                   \<lparr>all_references = [], requests = lg\<rparr> = (Inr (pa_projects_info a), st)
              \<and> pa_all_references a = all_references st)
         \<and> fst ` set (uses (pa_reference_matrix a))
             = (\<Union>p\<in>set (pa_projects_info a). set (declared p))
         \<and> fst ` set (uses (pa_reference_matrix a)) \<subseteq> snd ` set (pa_all_references a))"
proof -
  from ReferencesMatrix_init_ok [of ps] obtain m where
    r: "ReferencesMatrix_init ps = Inr m"
    and d: "distinct (map fst (uses m))"
    and dom: "fst ` set (uses m) = (\<Union>p\<in>set ps. set (declared p))"
    and rows: "\<forall>r row. map_of (uses m) r = Some row \<longrightarrow> row = map (\<lambda>p. r \<in> set (declared p)) ps"
    by blast
  have a: "\<forall>(r, row)\<in>set (uses m).
           length row = length ps
           \<and> (\<forall>i<length ps. row ! i \<longleftrightarrow> r \<in> set (declared (ps ! i)))"
  proof (clarify)
    fix r row assume "(r, row) \<in> set (uses m)"
    then have "map_of (uses m) r = Some row"
      using d by simp
    then have "row = map (\<lambda>p. r \<in> set (declared p)) ps"
      using rows by blast
    then show "length row = length ps
           \<and> (\<forall>i<length ps. row ! i \<longleftrightarrow> r \<in> set (declared (ps ! i)))"
      by simp
  qed
  have b: "\<forall>u r pid. map_of u r = None \<and> pid < length ps \<longrightarrow>
           mark_references (length ps) pid [r] u =
             Inr (u @ [(r, (replicate (length ps) False)[pid := True])])"
    by (auto simp: update_new_key update_last_key map_add_def)
  have c: "ReferencesMatrix_init (pa_projects_info a) = Inr (pa_reference_matrix a)
         \<and> (\<exists>lg st. NugetServiceIndex_init E [] = (Inr (nuget_service_index a), lg)
              \<and> read_projects E (nuget_service_index a) dir
                   (get_files_in_folder E dir ''.csproj'')
                   \<lparr>all_references = [], requests = lg\<rparr> = (Inr (pa_projects_info a), st)
              \<and> pa_all_references a = all_references st)
         \<and> fst ` set (uses (pa_reference_matrix a))
             = (\<Union>p\<in>set (pa_projects_info a). set (declared p))
         \<and> fst ` set (uses (pa_reference_matrix a)) \<subseteq> snd ` set (pa_all_references a)"
    if run: "ProjectsAnalyzer_init E dir = Inr a" for E dir a
    using run_parts [OF run] run_matrix_keys(1,2) [OF run] by blast
  show ?thesis
    using r d dom a b c by blast
qed

text \<open>The matrix of the two sample projects, and of the run over \<open>/src\<close>.\<close>

theorem usage_matrix_witness:
  "ReferencesMatrix_init [sample_project_A, sample_project_B] =
     Inr \<lparr>uses = [(sample_foo, [True, False]), (sample_foo_1, [False, True])],
          rm_projects_info = [sample_project_A, sample_project_B]\<rparr>
   \<and> fst ` set [(sample_foo, [True, False]), (sample_foo_1, [False, True])] =
       (\<Union>p\<in>set [sample_project_A, sample_project_B]. set (declared p))
   \<and> mark_references 2 1 [sample_foo_1] [(sample_foo, [True, False])] =
       Inr [(sample_foo, [True, False]), (sample_foo_1, [False, True])]
   \<and> map_sum id pa_projects_info (ProjectsAnalyzer_init sample_env ''/src'') =
       Inr [sample_project_A, sample_project_B]
   \<and> map_sum id pa_reference_matrix (ProjectsAnalyzer_init sample_env ''/src'') =
       Inr \<lparr>uses = [(sample_foo, [True, False]), (sample_foo_1, [False, True])],
            rm_projects_info = [sample_project_A, sample_project_B]\<rparr>
   \<and> map_sum id pa_all_references (ProjectsAnalyzer_init sample_env ''/src'') =
       Inr [(Some ''Foo'', sample_foo), (Some ''Foo, Version=1.0.0.0'', sample_foo_1)]
   \<and> fst ` set [(sample_foo, [True, False]), (sample_foo_1, [False, True])]
       \<subseteq> snd ` set [(Some ''Foo'', sample_foo), (Some ''Foo, Version=1.0.0.0'', sample_foo_1)]"
proof -
  let ?ps = "[sample_project_A, sample_project_B]"
  have run: "ReferencesMatrix_init ?ps =
     Inr \<lparr>uses = [(sample_foo, [True, False]), (sample_foo_1, [False, True])],
          rm_projects_info = ?ps\<rparr>"
    by code_simp
  have new: "map_of [(sample_foo, [True, False])] sample_foo_1 = None"
    by code_simp
  from usage_matrix [of ?ps] obtain m where
    m: "ReferencesMatrix_init ?ps = Inr m"
    and dom': "fst ` set (uses m) = (\<Union>p\<in>set ?ps. set (declared p))"
    and fresh: "\<forall>u r pid. map_of u r = None \<and> pid < length ?ps \<longrightarrow>
           mark_references (length ?ps) pid [r] u =
             Inr (u @ [(r, (replicate (length ?ps) False)[pid := True])])"
    and runs: "\<forall>E dir a. ProjectsAnalyzer_init E dir = Inr a \<longrightarrow>
           ReferencesMatrix_init (pa_projects_info a) = Inr (pa_reference_matrix a)
         \<and> (\<exists>lg st. NugetServiceIndex_init E [] = (Inr (nuget_service_index a), lg)
              \<and> read_projects E (nuget_service_index a) dir
                   (get_files_in_folder E dir ''.csproj'')
                   \<lparr>all_references = [], requests = lg\<rparr> = (Inr (pa_projects_info a), st)
              \<and> pa_all_references a = all_references st)
         \<and> fst ` set (uses (pa_reference_matrix a))
             = (\<Union>p\<in>set (pa_projects_info a). set (declared p))
         \<and> fst ` set (uses (pa_reference_matrix a)) \<subseteq> snd ` set (pa_all_references a)"
    by (elim exE conjE)
  from m run have "m = \<lparr>uses = [(sample_foo, [True, False]), (sample_foo_1, [False, True])],
          rm_projects_info = ?ps\<rparr>"
    by simp
  then have "uses m = [(sample_foo, [True, False]), (sample_foo_1, [False, True])]"
    by simp
  with dom' have dom: "fst ` set [(sample_foo, [True, False]), (sample_foo_1, [False, True])] =
       (\<Union>p\<in>set ?ps. set (declared p))"
    by simp
  from fresh [rule_format, of "[(sample_foo, [True, False])]" sample_foo_1 1] new
  have first: "mark_references 2 1 [sample_foo_1] [(sample_foo, [True, False])] =
       Inr [(sample_foo, [True, False]), (sample_foo_1, [False, True])]"
    by (simp add: numeral_2_eq_2)
  have "\<not> isl (ProjectsAnalyzer_init sample_env ''/src'')"
    by code_simp
  then obtain a where a: "ProjectsAnalyzer_init sample_env ''/src'' = Inr a"
    by (cases "ProjectsAnalyzer_init sample_env ''/src''") auto
  have ps: "map_sum id pa_projects_info (ProjectsAnalyzer_init sample_env ''/src'') = Inr ?ps"
    by code_simp
  have mx: "map_sum id pa_reference_matrix (ProjectsAnalyzer_init sample_env ''/src'') =
       Inr \<lparr>uses = [(sample_foo, [True, False]), (sample_foo_1, [False, True])],
            rm_projects_info = ?ps\<rparr>"
    by code_simp
  have tb: "map_sum id pa_all_references (ProjectsAnalyzer_init sample_env ''/src'') =
       Inr [(Some ''Foo'', sample_foo), (Some ''Foo, Version=1.0.0.0'', sample_foo_1)]"
    by code_simp
  from runs [rule_format, OF a, THEN conjunct2, THEN conjunct2, THEN conjunct2] mx tb a
  have sub: "fst ` set [(sample_foo, [True, False]), (sample_foo_1, [False, True])]
       \<subseteq> snd ` set [(Some ''Foo'', sample_foo), (Some ''Foo, Version=1.0.0.0'', sample_foo_1)]"
    by simp
  from run dom first ps mx tb sub show ?thesis by blast
qed

section \<open>The reference table of a run\<close>







end
